theory Spec2Isabelle
  imports Complex_Main "HOL-Library.Sublist"
begin

section \<open>Data model (shared/schema.ts)\<close>

text \<open>
  JavaScript values are represented as follows. A \<^verbatim>\<open>Date\<close> is its time value, the
  number of milliseconds since the epoch, an \<^typ>\<open>int\<close>; the events of the store carry
  valid dates (the column is \<^verbatim>\<open>timestamp NOT NULL\<close>), so \<^verbatim>\<open>Invalid Date\<close> appears only
  as the result \<open>None\<close> of parsing a filter string. A nullable or optional field is an
  \<open>option\<close>. Text columns are strings; the severity column is text as well, so a
  severity is one of the strings \<open>''low''\<close>, \<open>''medium''\<close>, \<open>''high''\<close>, \<open>''critical''\<close>.
  Fields whose names occur in several interfaces carry a suffix in all but one of them,
  and the fields \<^verbatim>\<open>id\<close> and \<^verbatim>\<open>notes\<close> are written \<open>id'\<close> and \<open>notes'\<close>.
\<close>

record InsertConflictEvent =
  eventDate :: int
  country :: string
  region :: "string option"
  location :: string
  latitude :: string
  longitude :: string
  eventType :: string
  subEventType :: "string option"
  actor1 :: "string option"
  actor2 :: "string option"
  fatalities :: "int option"
  notes' :: "string option"
  source :: "string option"
  sourceScale :: "string option"
  severity :: string

record ConflictEvent = InsertConflictEvent +
  id' :: string
  lastUpdated :: int

record ConflictFilters =
  severity_filter :: "string list option"
  eventTypes :: "string list option"
  countries :: "string list option"
  region_filter :: "string option"
  startDate :: "string option"
  endDate :: "string option"
  limit :: "int option"

section \<open>Ingestion (server/routes.ts)\<close>

record ACLEDEvent =
  data_date :: string
  event_date :: string
  country_acled :: string
  region_acled :: string
  location_acled :: string
  latitude_acled :: string
  longitude_acled :: string
  event_type :: string
  sub_event_type :: string
  actor1_acled :: string
  actor2_acled :: string
  fatalities_acled :: string
  notes_acled :: string
  source_acled :: string
  source_scale :: string

definition determineSeverity :: "int \<Rightarrow> string" where
  "determineSeverity n =
     (if n \<ge> 50 then ''critical''
      else if n \<ge> 10 then ''high''
      else if n \<ge> 1 then ''medium''
      else ''low'')"

text \<open>
  \<^verbatim>\<open>parseInt\<close> and the \<^verbatim>\<open>Date\<close> constructor belong to the language, not to the
  repository: they are parameters. \<open>parseInt s = None\<close> stands for \<^verbatim>\<open>NaN\<close>, which
  \<^verbatim>\<open>|| 0\<close> turns into 0; \<open>dateOf s\<close> is the time value of \<^verbatim>\<open>new Date(s)\<close> for the
  provider's date strings.
\<close>

definition convertACLEDEvent ::
  "(string \<Rightarrow> int option) \<Rightarrow> (string \<Rightarrow> int) \<Rightarrow> ACLEDEvent \<Rightarrow> InsertConflictEvent" where
  "convertACLEDEvent parseInt dateOf acledEvent =
     (let n = (case parseInt (fatalities_acled acledEvent) of None \<Rightarrow> 0 | Some k \<Rightarrow> k) in
      \<lparr> eventDate = dateOf (event_date acledEvent),
        country = country_acled acledEvent,
        region = Some (region_acled acledEvent),
        location = location_acled acledEvent,
        latitude = latitude_acled acledEvent,
        longitude = longitude_acled acledEvent,
        eventType = event_type acledEvent,
        subEventType = Some (sub_event_type acledEvent),
        actor1 = Some (actor1_acled acledEvent),
        actor2 = Some (actor2_acled acledEvent),
        fatalities = Some n,
        notes' = Some (notes_acled acledEvent),
        source = Some (source_acled acledEvent),
        sourceScale = Some (source_scale acledEvent),
        severity = determineSeverity n \<rparr>)"

section \<open>Event store (MemStorage)\<close>

text \<open>
  The store is a JavaScript \<^verbatim>\<open>Map\<close> from id to event. A \<^verbatim>\<open>Map\<close> iterates in insertion
  order and \<^verbatim>\<open>set\<close> on a key that is present keeps the key's position, so the store is
  an association list with one entry for each key.
\<close>

type_synonym store = "(string \<times> ConflictEvent) list"

fun map_set :: "string \<Rightarrow> ConflictEvent \<Rightarrow> store \<Rightarrow> store" where
  "map_set k v [] = [(k, v)]"
| "map_set k v ((k', v') # kvs) =
     (if k = k' then (k, v) # kvs else (k', v') # map_set k v kvs)"

definition map_values :: "store \<Rightarrow> ConflictEvent list" where
  "map_values st = map snd st"

text \<open>\<open>uuid\<close> is the value \<^verbatim>\<open>randomUUID()\<close> returns and \<open>now\<close> the clock at the call.\<close>

definition createConflictEvent ::
  "string \<Rightarrow> int \<Rightarrow> InsertConflictEvent \<Rightarrow> store \<Rightarrow> ConflictEvent \<times> store" where
  "createConflictEvent uuid now insertEvent st =
     (let event =
        \<lparr> eventDate = eventDate insertEvent,
          country = country insertEvent,
          region = region insertEvent,
          location = location insertEvent,
          latitude = latitude insertEvent,
          longitude = longitude insertEvent,
          eventType = eventType insertEvent,
          subEventType = subEventType insertEvent,
          actor1 = actor1 insertEvent,
          actor2 = actor2 insertEvent,
          fatalities = fatalities insertEvent,
          notes' = notes' insertEvent,
          source = source insertEvent,
          sourceScale = sourceScale insertEvent,
          severity = severity insertEvent,
          id' = uuid,
          lastUpdated = now \<rparr>
      in (event, map_set uuid event st))"

text \<open>The k-th call of \<^verbatim>\<open>randomUUID()\<close> in the loop returns \<open>uuids k\<close>.\<close>

fun bulkCreateConflictEvents ::
  "(nat \<Rightarrow> string) \<Rightarrow> int \<Rightarrow> InsertConflictEvent list \<Rightarrow> store \<Rightarrow> ConflictEvent list \<times> store" where
  "bulkCreateConflictEvents uuids now [] st = ([], st)"
| "bulkCreateConflictEvents uuids now (insertEvent # rest) st =
     (let (event, st') = createConflictEvent (uuids 0) now insertEvent st;
          (events, st'') = bulkCreateConflictEvents (\<lambda>k. uuids (Suc k)) now rest st'
      in (event # events, st''))"

text \<open>
  \<^verbatim>\<open>Array.prototype.slice(0, end)\<close>: a negative end counts from the end of the array.
\<close>

definition slice0 :: "int \<Rightarrow> 'a list \<Rightarrow> 'a list" where
  "slice0 n xs =
     (if n < 0 then take (nat (int (length xs) + n)) xs else take (nat n) xs)"

text \<open>
  \<^verbatim>\<open>new Date(event.eventDate) >= d\<close> where \<open>d\<close> was parsed from a filter string: the
  comparison with \<^verbatim>\<open>Invalid Date\<close> is false.
\<close>

definition dateGe :: "int \<Rightarrow> int option \<Rightarrow> bool" where
  "dateGe t d = (case d of None \<Rightarrow> False | Some t' \<Rightarrow> t \<ge> t')"

definition dateLe :: "int \<Rightarrow> int option \<Rightarrow> bool" where
  "dateLe t d = (case d of None \<Rightarrow> False | Some t' \<Rightarrow> t \<le> t')"

text \<open>
  \<open>includesFilter\<close> is one of the three stages
  \<^verbatim>\<open>if (filters.xs && filters.xs.length > 0) events = events.filter(e => filters.xs.includes(e.f))\<close>.
\<close>

definition includesFilter ::
  "string list option \<Rightarrow> (ConflictEvent \<Rightarrow> string) \<Rightarrow> ConflictEvent list \<Rightarrow> ConflictEvent list" where
  "includesFilter xs field events =
     (case xs of
        None \<Rightarrow> events
      | Some ys \<Rightarrow> if length ys > 0 then filter (\<lambda>event. field event \<in> set ys) events else events)"

definition applyFilters ::
  "(string \<Rightarrow> int option) \<Rightarrow> ConflictFilters \<Rightarrow> ConflictEvent list \<Rightarrow> ConflictEvent list" where
  "applyFilters newDate filters events0 =
     (let events1 = includesFilter (severity_filter filters) severity events0;
          events2 = includesFilter (eventTypes filters) eventType events1;
          events3 = includesFilter (countries filters) country events2;
          events4 =
            (case region_filter filters of
               None \<Rightarrow> events3
             | Some r \<Rightarrow>
                 if r \<noteq> [] then filter (\<lambda>event. region event = Some r) events3 else events3);
          events5 =
            (case startDate filters of
               None \<Rightarrow> events4
             | Some s \<Rightarrow>
                 if s \<noteq> [] then filter (\<lambda>event. dateGe (eventDate event) (newDate s)) events4
                 else events4);
          events6 =
            (case endDate filters of
               None \<Rightarrow> events5
             | Some s \<Rightarrow>
                 if s \<noteq> [] then filter (\<lambda>event. dateLe (eventDate event) (newDate s)) events5
                 else events5)
      in events6)"

text \<open>
  \<^verbatim>\<open>filters?.limit || 1000\<close>: an absent limit and the limit 0 both give 1000.
\<close>

definition effectiveLimit :: "ConflictFilters option \<Rightarrow> int" where
  "effectiveLimit filters =
     (case filters of
        None \<Rightarrow> 1000
      | Some f \<Rightarrow> (case limit f of None \<Rightarrow> 1000 | Some l \<Rightarrow> if l = 0 then 1000 else l))"

text \<open>
  \<^verbatim>\<open>events.sort((a, b) => b.time - a.time)\<close> is a stable sort (ECMAScript 2019), by
  descending time value; \<^const>\<open>sort_key\<close> is the stable insertion sort of the library.
\<close>

definition getConflictEvents ::
  "(string \<Rightarrow> int option) \<Rightarrow> store \<Rightarrow> ConflictFilters option \<Rightarrow> ConflictEvent list" where
  "getConflictEvents newDate st filters =
     (let events = map_values st;
          events' = (case filters of None \<Rightarrow> events | Some f \<Rightarrow> applyFilters newDate f events);
          sorted_events = sort_key (\<lambda>event. - eventDate event) events'
      in slice0 (effectiveLimit filters) sorted_events)"

section \<open>Dates (the ECMAScript Date functions the scheduler uses)\<close>

text \<open>
  \<^verbatim>\<open>toISOString\<close> prints a time value in UTC as \<^verbatim>\<open>YYYY-MM-DDTHH:mm:ss.sssZ\<close> (with a
  signed six-digit year outside 0..9999); \<open>civilFromDays\<close> and \<open>daysFromCivil\<close> convert
  between a day number and a date of the proleptic Gregorian calendar. \<open>parseISODate\<close>
  is the \<^verbatim>\<open>Date\<close> constructor on the date-only form \<^verbatim>\<open>YYYY-MM-DD\<close>, which ECMAScript
  reads as midnight UTC of that day; it is used to run the model on concrete inputs.
\<close>

definition msPerDay :: int where
  "msPerDay = 24 * 60 * 60 * 1000"

definition civilFromDays :: "int \<Rightarrow> int \<times> int \<times> int" where
  "civilFromDays days =
     (let z = days + 719468;
          era = z div 146097;
          doe = z - era * 146097;
          yoe = (doe - doe div 1460 + doe div 36524 - doe div 146096) div 365;
          doy = doe - (365 * yoe + yoe div 4 - yoe div 100);
          mp = (5 * doy + 2) div 153;
          d = doy - (153 * mp + 2) div 5 + 1;
          m = (if mp < 10 then mp + 3 else mp - 9);
          y = yoe + era * 400 + (if m \<le> 2 then 1 else 0)
      in (y, m, d))"

definition daysFromCivil :: "int \<Rightarrow> int \<Rightarrow> int \<Rightarrow> int" where
  "daysFromCivil y m d =
     (let y' = (if m \<le> 2 then y - 1 else y);
          era = y' div 400;
          yoe = y' - era * 400;
          doy = (153 * (if m > 2 then m - 3 else m + 9) + 2) div 5 + d - 1;
          doe = yoe * 365 + yoe div 4 - yoe div 100 + doy
      in era * 146097 + doe - 719468)"

definition digitChar :: "nat \<Rightarrow> char" where
  "digitChar d = ''0123456789'' ! d"

fun pad :: "nat \<Rightarrow> nat \<Rightarrow> string" where
  "pad 0 n = []"
| "pad (Suc k) n = pad k (n div 10) @ [digitChar (n mod 10)]"

definition isoYear :: "int \<Rightarrow> string" where
  "isoYear y =
     (if 0 \<le> y \<and> y \<le> 9999 then pad 4 (nat y)
      else (if y < 0 then ''-'' else ''+'') @ pad 6 (nat \<bar>y\<bar>))"

definition toISOString :: "int \<Rightarrow> string" where
  "toISOString t =
     (let (y, m, d) = civilFromDays (t div msPerDay);
          ms = t mod msPerDay
      in isoYear y @ ''-'' @ pad 2 (nat m) @ ''-'' @ pad 2 (nat d) @ ''T'' @
         pad 2 (nat (ms div 3600000)) @ '':'' @ pad 2 (nat (ms div 60000 mod 60)) @ '':'' @
         pad 2 (nat (ms div 1000 mod 60)) @ ''.'' @ pad 3 (nat (ms mod 1000)) @ ''Z'')"

definition splitT0 :: "string \<Rightarrow> string" where
  "splitT0 s = takeWhile (\<lambda>c. c \<noteq> CHR ''T'') s"

definition digitVal :: "char \<Rightarrow> nat option" where
  "digitVal c = map_of (zip ''0123456789'' [0, 1, 2, 3, 4, 5, 6, 7, 8, 9]) c"

fun digitsVal :: "nat \<Rightarrow> string \<Rightarrow> nat option" where
  "digitsVal acc [] = Some acc"
| "digitsVal acc (c # cs) =
     (case digitVal c of None \<Rightarrow> None | Some d \<Rightarrow> digitsVal (10 * acc + d) cs)"

definition daysInMonth :: "int \<Rightarrow> int \<Rightarrow> int" where
  "daysInMonth y m =
     (if m = 2 then (if y mod 4 = 0 \<and> (y mod 100 \<noteq> 0 \<or> y mod 400 = 0) then 29 else 28)
      else if m = 4 \<or> m = 6 \<or> m = 9 \<or> m = 11 then 30 else 31)"

definition parseISODate :: "string \<Rightarrow> int option" where
  "parseISODate s =
     (if length s = 10 \<and> s ! 4 = CHR ''-'' \<and> s ! 7 = CHR ''-'' then
        (case (digitsVal 0 (take 4 s), digitsVal 0 (take 2 (drop 5 s)), digitsVal 0 (drop 8 s)) of
           (Some y, Some m, Some d) \<Rightarrow>
             if 1 \<le> m \<and> m \<le> 12 \<and> 1 \<le> d \<and> int d \<le> daysInMonth (int y) (int m)
             then Some (daysFromCivil (int y) (int m) (int d) * msPerDay)
             else None
         | _ \<Rightarrow> None)
      else None)"

section \<open>The scheduler's store query (server/websocket.ts)\<close>

text \<open>
  The filter object the monitoring callback passes to \<^verbatim>\<open>storage.getConflictEvents\<close>, where
  \<open>now\<close> is the value of \<^verbatim>\<open>Date.now()\<close>. The start date is the date part of the ISO
  string of \<open>now\<close> minus 24 hours.
\<close>

definition monitoringFilters :: "int \<Rightarrow> ConflictFilters" where
  "monitoringFilters now =
     \<lparr> severity_filter = Some [''high'', ''critical''],
       eventTypes = None,
       countries = None,
       region_filter = None,
       startDate = Some (splitT0 (toISOString (now - 24 * 60 * 60 * 1000))),
       endDate = None,
       limit = Some 50 \<rparr>"

definition recentEventsQuery :: "(string \<Rightarrow> int option) \<Rightarrow> int \<Rightarrow> store \<Rightarrow> ConflictEvent list" where
  "recentEventsQuery newDate now st = getConflictEvents newDate st (Some (monitoringFilters now))"

text \<open>Midnight UTC of the day a time value lies in.\<close>

definition startOfDay :: "int \<Rightarrow> int" where
  "startOfDay t = (t div msPerDay) * msPerDay"

section \<open>Analyzer (server/ai-analysis.ts)\<close>

record ConflictAnalysis =
  severity_verdict :: string
  confidence :: real
  keyInsights :: "string list"
  recommendations :: "string list"
  emergingPatterns :: "string list"
  riskLevel :: real

datatype error = Error string

text \<open>
  The external service is the call \<^verbatim>\<open>openai.chat.completions.create\<close>. A \<open>request\<close> is one
  such call; the prompt is a function of the events it is built from, so the request is
  identified by them. A \<open>completion\<close> is what the awaited call gives: \<open>Rejected\<close> when the
  promise rejects (an API error, a timeout) or the response has no first choice to read,
  \<open>Content\<close> with \<^verbatim>\<open>response.choices[0].message.content\<close> otherwise, which may be null.
\<close>

datatype request = AnalysisRequest "ConflictEvent list" | AlertRequest ConflictEvent

datatype completion = Rejected error | Content "string option"

text \<open>
  The object \<^verbatim>\<open>JSON.parse\<close> returns, read at the six properties the analyzer uses. A
  property is \<open>None\<close> when it is missing or null; a property holding a value of another
  JSON type than the analyzer expects is not represented. \<^verbatim>\<open>JSON.parse\<close> itself is a
  parameter, \<open>Inl\<close> when it throws.
\<close>

record AnalysisJSON =
  severity_json :: "string option"
  confidence_json :: "real option"
  keyInsights_json :: "string list option"
  recommendations_json :: "string list option"
  emergingPatterns_json :: "string list option"
  riskLevel_json :: "real option"

text \<open>\<^verbatim>\<open>s || d\<close> on a string that may be null: the empty string is falsy.\<close>

definition orElse :: "string option \<Rightarrow> string \<Rightarrow> string" where
  "orElse s d = (case s of None \<Rightarrow> d | Some x \<Rightarrow> if x = [] then d else x)"

text \<open>\<^verbatim>\<open>n || d\<close> on a number that may be missing: 0 is falsy.\<close>

definition numOrElse :: "real option \<Rightarrow> real \<Rightarrow> real" where
  "numOrElse n d = (case n of None \<Rightarrow> d | Some x \<Rightarrow> if x = 0 then d else x)"

text \<open>\<^verbatim>\<open>Array.isArray(xs) ? xs : []\<close>.\<close>

definition arrayOrEmpty :: "string list option \<Rightarrow> string list" where
  "arrayOrEmpty xs = (case xs of None \<Rightarrow> [] | Some ys \<Rightarrow> ys)"

definition emptyVerdict :: ConflictAnalysis where
  "emptyVerdict =
     \<lparr> severity_verdict = ''low'',
       confidence = 1.0,
       keyInsights = [''No conflict events to analyze''],
       recommendations = [''Continue monitoring for emerging threats''],
       emergingPatterns = [],
       riskLevel = 1 \<rparr>"

definition failureVerdict :: ConflictAnalysis where
  "failureVerdict =
     \<lparr> severity_verdict = ''medium'',
       confidence = 0.3,
       keyInsights = [''Analysis temporarily unavailable due to AI service error''],
       recommendations = [''Continue monitoring manually''],
       emergingPatterns = [],
       riskLevel = 5 \<rparr>"

definition verdictOfJSON :: "AnalysisJSON \<Rightarrow> ConflictAnalysis" where
  "verdictOfJSON analysis =
     \<lparr> severity_verdict = orElse (severity_json analysis) ''low'',
       confidence = max 0 (min 1 (numOrElse (confidence_json analysis) 0.5)),
       keyInsights = arrayOrEmpty (keyInsights_json analysis),
       recommendations = arrayOrEmpty (recommendations_json analysis),
       emergingPatterns = arrayOrEmpty (emergingPatterns_json analysis),
       riskLevel = max 1 (min 10 (numOrElse (riskLevel_json analysis) 5)) \<rparr>"

text \<open>
  \<^verbatim>\<open>analyzeConflictEvents\<close> in three parts. \<open>analyzeConflictEvents_start\<close> is the function
  up to its \<^verbatim>\<open>await\<close>: it returns the verdict for an empty list at once (\<open>Inl\<close>), and
  otherwise the request it sends (\<open>Inr\<close>). \<open>analyzeConflictEvents_try\<close> is the body of the
  \<^verbatim>\<open>try\<close> block once the call has settled, \<open>Inl\<close> where it throws.
  \<open>analyzeConflictEvents_finish\<close> adds the \<^verbatim>\<open>catch\<close> block: it is the value the promise of
  \<^verbatim>\<open>analyzeConflictEvents\<close> settles with, \<open>Inl\<close> for a rejection.
\<close>

definition analyzeConflictEvents_start :: "ConflictEvent list \<Rightarrow> ConflictAnalysis + request" where
  "analyzeConflictEvents_start events =
     (if length events = 0 then Inl emptyVerdict else Inr (AnalysisRequest events))"

definition analyzeConflictEvents_try ::
  "(string \<Rightarrow> error + AnalysisJSON) \<Rightarrow> completion \<Rightarrow> error + ConflictAnalysis" where
  "analyzeConflictEvents_try JSON_parse response =
     (case response of
        Rejected e \<Rightarrow> Inl e
      | Content content \<Rightarrow>
          (case JSON_parse (orElse content ''{}'') of
             Inl e \<Rightarrow> Inl e
           | Inr analysis \<Rightarrow> Inr (verdictOfJSON analysis)))"

definition analyzeConflictEvents_finish ::
  "(string \<Rightarrow> error + AnalysisJSON) \<Rightarrow> completion \<Rightarrow> error + ConflictAnalysis" where
  "analyzeConflictEvents_finish JSON_parse response =
     (case analyzeConflictEvents_try JSON_parse response of
        Inl e \<Rightarrow> Inr failureVerdict
      | Inr analysis \<Rightarrow> Inr analysis)"

text \<open>
  The whole function, run to its end against a service \<open>openai\<close> that answers a request
  depending on the calls made before it; the list of calls made so far is threaded
  through.
\<close>

definition analyzeConflictEvents ::
  "(string \<Rightarrow> error + AnalysisJSON) \<Rightarrow> (request list \<Rightarrow> request \<Rightarrow> completion) \<Rightarrow>
   ConflictEvent list \<Rightarrow> request list \<Rightarrow> (error + ConflictAnalysis) \<times> request list" where
  "analyzeConflictEvents JSON_parse openai events calls =
     (case analyzeConflictEvents_start events of
        Inl analysis \<Rightarrow> (Inr analysis, calls)
      | Inr req \<Rightarrow> (analyzeConflictEvents_finish JSON_parse (openai calls req), calls @ [req]))"

text \<open>
  \<^verbatim>\<open>toUpperCase\<close> on the ASCII letters; the severities it is applied to are ASCII words.
\<close>

definition toUpperCase :: "string \<Rightarrow> string" where
  "toUpperCase s =
     map (\<lambda>c. let n = (of_char c :: nat) in if 97 \<le> n \<and> n \<le> 122 then char_of (n - 32) else c) s"

definition fallbackAlert :: "ConflictEvent \<Rightarrow> string" where
  "fallbackAlert event =
     toUpperCase (severity event) @ '' conflict event reported in '' @ location event @ '', '' @
     country event"

definition generateConflictAlert_try :: "ConflictEvent \<Rightarrow> completion \<Rightarrow> error + string" where
  "generateConflictAlert_try event response =
     (case response of
        Rejected e \<Rightarrow> Inl e
      | Content content \<Rightarrow> Inr (orElse content (fallbackAlert event)))"

definition generateConflictAlert_finish :: "ConflictEvent \<Rightarrow> completion \<Rightarrow> error + string" where
  "generateConflictAlert_finish event response =
     (case generateConflictAlert_try event response of
        Inl e \<Rightarrow> Inr (fallbackAlert event)
      | Inr alert \<Rightarrow> Inr alert)"

section \<open>Broadcast hub (server/websocket.ts)\<close>

text \<open>
  A message is tagged by its type; the fields of \<^verbatim>\<open>data\<close> follow, then the timestamp:
  \<open>conflict_alert event alert severity location timestamp\<close>,
  \<open>analysis_update analysis eventCount regions timestamp\<close> and
  \<open>heartbeat status clientCount lastCheck timestamp\<close> (the heartbeat sent on
  connection has no \<^verbatim>\<open>lastCheck\<close>).
\<close>

datatype WebSocketMessage =
    conflict_alert ConflictEvent string string string string
  | analysis_update ConflictAnalysis nat "string list" string
  | heartbeat string nat "string option" string

definition messageType :: "WebSocketMessage \<Rightarrow> string" where
  "messageType m =
     (case m of
        conflict_alert _ _ _ _ _ \<Rightarrow> ''conflict_alert''
      | analysis_update _ _ _ _ \<Rightarrow> ''analysis_update''
      | heartbeat _ _ _ _ \<Rightarrow> ''heartbeat'')"

text \<open>
  The connections belong to the \<^verbatim>\<open>ws\<close> library. A socket is named by a handle; its state
  is its \<^verbatim>\<open>readyState\<close>, whether its transport still carries data, and the messages its
  peer has received. \<^verbatim>\<open>send\<close> throws while the socket is still connecting, and drops the
  data on a socket that is closing or closed. On an open socket it returns normally: the
  message reaches the peer when the transport works, and is lost when it does not, in
  which case the library reports the failure later, through the socket's \<^verbatim>\<open>error\<close> or
  \<^verbatim>\<open>close\<close> event.
\<close>

datatype ReadyState = CONNECTING | OPEN | CLOSING | CLOSED

type_synonym ws = nat

record WebSocket =
  readyState :: ReadyState
  writable :: bool
  received :: "WebSocketMessage list"

definition ws_send :: "WebSocketMessage \<Rightarrow> WebSocket \<Rightarrow> error + WebSocket" where
  "ws_send message sock =
     (if readyState sock = CONNECTING
      then Inl (Error ''WebSocket is not open: readyState 0 (CONNECTING)'')
      else if readyState sock = OPEN \<and> writable sock
      then Inr (sock\<lparr>received := received sock @ [message]\<rparr>)
      else Inr sock)"

text \<open>
  The state the server code works on: the store, the set of clients (a \<^verbatim>\<open>Set\<close> iterates in
  insertion order), whether the monitoring timer is set, the sockets, and the requests
  sent to the external service so far.

  A method of the server that may throw returns a pair: \<open>Inl\<close> with the error when it
  throws and \<open>Inr ()\<close> when it returns, and the state it leaves behind in either case.
\<close>

record system =
  storage :: store
  clients :: "ws list"
  monitoringInterval :: bool
  sockets :: "ws \<Rightarrow> WebSocket"
  requests :: "request list"

definition sendToClient :: "ws \<Rightarrow> WebSocketMessage \<Rightarrow> system \<Rightarrow> (error + unit) \<times> system" where
  "sendToClient client message s =
     (if readyState (sockets s client) = OPEN then
        (case ws_send message (sockets s client) of
           Inl e \<Rightarrow> (Inl e, s)
         | Inr sock \<Rightarrow> (Inr (), s\<lparr>sockets := (sockets s)(client := sock)\<rparr>))
      else (Inr (), s))"

text \<open>
  \<^verbatim>\<open>this.clients.forEach(client => this.sendToClient(client, message))\<close>: an exception
  thrown for one client ends the loop and leaves the clients after it without the
  message.
\<close>

fun forEachClient :: "ws list \<Rightarrow> WebSocketMessage \<Rightarrow> system \<Rightarrow> (error + unit) \<times> system" where
  "forEachClient [] message s = (Inr (), s)"
| "forEachClient (client # rest) message s =
     (case sendToClient client message s of
        (Inl e, s') \<Rightarrow> (Inl e, s')
      | (Inr u, s') \<Rightarrow> forEachClient rest message s')"

definition broadcast :: "WebSocketMessage \<Rightarrow> system \<Rightarrow> (error + unit) \<times> system" where
  "broadcast message s = forEachClient (clients s) message s"

definition set_add :: "ws \<Rightarrow> ws list \<Rightarrow> ws list" where
  "set_add client cs = (if client \<in> set cs then cs else cs @ [client])"

text \<open>The handlers of the \<^verbatim>\<open>connection\<close>, \<^verbatim>\<open>close\<close> and \<^verbatim>\<open>error\<close> events.\<close>

definition onConnection :: "ws \<Rightarrow> int \<Rightarrow> system \<Rightarrow> (error + unit) \<times> system" where
  "onConnection client now s =
     (let s' = s\<lparr>clients := set_add client (clients s)\<rparr>
      in sendToClient client
           (heartbeat ''connected'' (length (clients s')) None (toISOString now)) s')"

definition onClose :: "ws \<Rightarrow> system \<Rightarrow> system" where
  "onClose client s = s\<lparr>clients := removeAll client (clients s)\<rparr>"

definition onError :: "ws \<Rightarrow> system \<Rightarrow> system" where
  "onError client s = s\<lparr>clients := removeAll client (clients s)\<rparr>"

definition getClientCount :: "system \<Rightarrow> nat" where
  "getClientCount s = length (clients s)"

definition stopMonitoring :: "system \<Rightarrow> system" where
  "stopMonitoring s = (if monitoringInterval s then s\<lparr>monitoringInterval := False\<rparr> else s)"

section \<open>Monitoring cycle (startRealTimeMonitoring)\<close>

text \<open>
  The callback of the timer is an \<^verbatim>\<open>async\<close> function: it runs until it awaits a call of
  the external service, and is resumed when that call settles; other handlers run in
  between. A \<open>continuation\<close> is a suspended callback: \<open>AwaitAnalysis recentEvents\<close> waits
  in \<^verbatim>\<open>analyzeConflictEvents(recentEvents)\<close>, and \<open>AwaitAlert recentEvents event rest\<close>
  waits in \<^verbatim>\<open>generateConflictAlert(event)\<close> with the events \<open>rest\<close> of the loop still to
  come. (The store of the repository resolves its promises without waiting, so the
  callback does not stop at \<^verbatim>\<open>await storage.getConflictEvents\<close>.)

  Each part of the callback returns the messages it has published (the calls of
  \<^verbatim>\<open>broadcast\<close> that returned), the new state, and the continuation, \<open>None\<close> when the
  callback has returned. \<open>now\<close> is the clock when the part runs.
\<close>

datatype continuation =
    AwaitAnalysis "ConflictEvent list"
  | AwaitAlert "ConflictEvent list" ConflictEvent "ConflictEvent list"

type_synonym progress = "WebSocketMessage list \<times> system \<times> continuation option"

text \<open>
  \<^verbatim>\<open>Array.from(new Set(xs))\<close>: the distinct elements, each at its first occurrence.
\<close>

fun distinctFirst :: "'a list \<Rightarrow> 'a list \<Rightarrow> 'a list" where
  "distinctFirst seen [] = []"
| "distinctFirst seen (x # xs) =
     (if x \<in> set seen then distinctFirst seen xs else x # distinctFirst (x # seen) xs)"

text \<open>\<^verbatim>\<open>recentEvents.map(e => e.region).filter(Boolean)\<close>, made distinct.\<close>

definition regionsOf :: "ConflictEvent list \<Rightarrow> string list" where
  "regionsOf events =
     distinctFirst []
       (concat (map (\<lambda>e. case region e of None \<Rightarrow> [] | Some r \<Rightarrow> if r = [] then [] else [r])
          events))"

definition heartbeatMessage :: "int \<Rightarrow> system \<Rightarrow> WebSocketMessage" where
  "heartbeatMessage now s =
     heartbeat ''monitoring'' (length (clients s)) (Some (toISOString now)) (toISOString now)"

text \<open>
  The last statement of the \<^verbatim>\<open>try\<close> block. Where \<^verbatim>\<open>broadcast\<close> throws, here and below,
  the \<^verbatim>\<open>catch\<close> block of the callback logs the error and the callback returns.
\<close>

definition sendHeartbeat :: "int \<Rightarrow> WebSocketMessage list \<Rightarrow> system \<Rightarrow> progress" where
  "sendHeartbeat now published s =
     (case broadcast (heartbeatMessage now s) s of
        (Inl e, s') \<Rightarrow> (published, s', None)
      | (Inr u, s') \<Rightarrow> (published @ [heartbeatMessage now s], s', None))"

text \<open>
  The loop \<^verbatim>\<open>for (const event of criticalEvents.slice(0, 3))\<close> from its head: with no
  event left the callback goes on to the heartbeat, otherwise it sends the request of
  \<^verbatim>\<open>generateConflictAlert(event)\<close> and waits.
\<close>

definition alertLoop ::
  "ConflictEvent list \<Rightarrow> ConflictEvent list \<Rightarrow> int \<Rightarrow> WebSocketMessage list \<Rightarrow> system \<Rightarrow> progress" where
  "alertLoop recentEvents todo now published s =
     (case todo of
        [] \<Rightarrow> sendHeartbeat now published s
      | event # rest \<Rightarrow>
          (published, s\<lparr>requests := requests s @ [AlertRequest event]\<rparr>,
           Some (AwaitAlert recentEvents event rest)))"

text \<open>
  The callback from the point where \<^verbatim>\<open>analyzeConflictEvents(recentEvents)\<close> has settled
  with \<open>outcome\<close>. A rejection lands in the \<^verbatim>\<open>catch\<close> block of the callback, which logs it
  and returns.
\<close>

definition afterAnalysis ::
  "error + ConflictAnalysis \<Rightarrow> ConflictEvent list \<Rightarrow> int \<Rightarrow> system \<Rightarrow> progress" where
  "afterAnalysis outcome recentEvents now s =
     (case outcome of
        Inl e \<Rightarrow> ([], s, None)
      | Inr analysis \<Rightarrow>
          (let message =
                 analysis_update analysis (length recentEvents) (regionsOf recentEvents)
                   (toISOString now);
               criticalEvents = filter (\<lambda>e. severity e = ''critical'') recentEvents
           in case broadcast message s of
                (Inl e, s') \<Rightarrow> ([], s', None)
              | (Inr u, s') \<Rightarrow> alertLoop recentEvents (slice0 3 criticalEvents) now [message] s'))"

definition afterAlert ::
  "error + string \<Rightarrow> ConflictEvent list \<Rightarrow> ConflictEvent \<Rightarrow> ConflictEvent list \<Rightarrow> int \<Rightarrow>
   system \<Rightarrow> progress" where
  "afterAlert outcome recentEvents event rest now s =
     (case outcome of
        Inl e \<Rightarrow> ([], s, None)
      | Inr alert \<Rightarrow>
          (let message =
                 conflict_alert event alert (severity event)
                   (location event @ '', '' @ country event) (toISOString now)
           in case broadcast message s of
                (Inl e, s') \<Rightarrow> ([], s', None)
              | (Inr u, s') \<Rightarrow> alertLoop recentEvents rest now [message] s'))"

text \<open>The callback from its start, at a tick of the timer.\<close>

definition monitoringCallback :: "(string \<Rightarrow> int option) \<Rightarrow> int \<Rightarrow> system \<Rightarrow> progress" where
  "monitoringCallback newDate now s =
     (let recentEvents = recentEventsQuery newDate now (storage s)
      in if length recentEvents > 0 then
           (case analyzeConflictEvents_start recentEvents of
              Inl analysis \<Rightarrow> afterAnalysis (Inr analysis) recentEvents now s
            | Inr req \<Rightarrow> ([], s\<lparr>requests := requests s @ [req]\<rparr>, Some (AwaitAnalysis recentEvents)))
         else sendHeartbeat now [] s)"

text \<open>The callback resumed when the call it waits for has settled with \<open>response\<close>.\<close>

definition resume ::
  "(string \<Rightarrow> error + AnalysisJSON) \<Rightarrow> continuation \<Rightarrow> completion \<Rightarrow> int \<Rightarrow> system \<Rightarrow> progress" where
  "resume JSON_parse k response now s =
     (case k of
        AwaitAnalysis recentEvents \<Rightarrow>
          afterAnalysis (analyzeConflictEvents_finish JSON_parse response) recentEvents now s
      | AwaitAlert recentEvents event rest \<Rightarrow>
          afterAlert (generateConflictAlert_finish event response) recentEvents event rest now s)"

text \<open>
  One cycle from its tick to its end. A \<open>settlement\<close> is the settling of the call the
  cycle waits for: the response, the clock at that moment, and what the rest of the
  system (connections, requests, other cycles) did to the state while the cycle was
  waiting. The cycle consumes a settlement each time it waits; settlements left over
  when it has returned are not for it.
\<close>

type_synonym settlement = "completion \<times> int \<times> (system \<Rightarrow> system)"

fun settle :: "(string \<Rightarrow> error + AnalysisJSON) \<Rightarrow> settlement list \<Rightarrow> progress \<Rightarrow> progress" where
  "settle JSON_parse [] p = p"
| "settle JSON_parse (x # xs) (published, s, None) = (published, s, None)"
| "settle JSON_parse ((response, now, others) # xs) (published, s, Some k) =
     (case resume JSON_parse k response now (others s) of
        (published', s', k') \<Rightarrow> settle JSON_parse xs (published @ published', s', k'))"

definition monitoringCycle ::
  "(string \<Rightarrow> int option) \<Rightarrow> (string \<Rightarrow> error + AnalysisJSON) \<Rightarrow> int \<Rightarrow> settlement list \<Rightarrow>
   system \<Rightarrow> progress" where
  "monitoringCycle newDate JSON_parse now settlements s =
     settle JSON_parse settlements (monitoringCallback newDate now s)"

section \<open>Scheduler (the timer and the suspended callbacks)\<close>

text \<open>
  \<^verbatim>\<open>setInterval\<close> calls the callback at every tick and does not wait for the promise the
  callback returns. The scheduler's state is the system together with the callbacks that
  are suspended, each under the number of the tick that started it. An input is a tick
  of the timer, the settling of the call a suspended callback waits for, one of the
  connection events, or a call of \<^verbatim>\<open>stopMonitoring\<close>. Of the connection handler, which
  may throw by its type, the step keeps the state it leaves.
\<close>

record scheduler =
  sys :: system
  running :: "(nat \<times> continuation) list"
  ticks :: nat

datatype input =
    Tick int
  | Settled nat completion int
  | Connection ws int
  | Close ws
  | SocketError ws
  | StopMonitoring

definition suspend :: "nat \<Rightarrow> continuation option \<Rightarrow> (nat \<times> continuation) list \<Rightarrow> (nat \<times> continuation) list" where
  "suspend cycle k rs =
     (case k of
        None \<Rightarrow> filter (\<lambda>(c, _). c \<noteq> cycle) rs
      | Some k' \<Rightarrow>
          if cycle \<in> set (map fst rs) then map (\<lambda>(c, old). if c = cycle then (c, k') else (c, old)) rs
          else rs @ [(cycle, k')])"

definition step ::
  "(string \<Rightarrow> int option) \<Rightarrow> (string \<Rightarrow> error + AnalysisJSON) \<Rightarrow> input \<Rightarrow> scheduler \<Rightarrow> scheduler" where
  "step newDate JSON_parse i sch =
     (case i of
        Tick now \<Rightarrow>
          if monitoringInterval (sys sch) then
            (case monitoringCallback newDate now (sys sch) of
               (published, s', k) \<Rightarrow>
                 \<lparr> sys = s', running = suspend (ticks sch) k (running sch), ticks = ticks sch + 1 \<rparr>)
          else sch
      | Settled cycle response now \<Rightarrow>
          (case map_of (running sch) cycle of
             None \<Rightarrow> sch
           | Some k \<Rightarrow>
               (case resume JSON_parse k response now (sys sch) of
                  (published, s', k') \<Rightarrow> sch\<lparr>sys := s', running := suspend cycle k' (running sch)\<rparr>))
      | Connection client now \<Rightarrow> sch\<lparr>sys := snd (onConnection client now (sys sch))\<rparr>
      | Close client \<Rightarrow> sch\<lparr>sys := onClose client (sys sch)\<rparr>
      | SocketError client \<Rightarrow> sch\<lparr>sys := onError client (sys sch)\<rparr>
      | StopMonitoring \<Rightarrow> sch\<lparr>sys := stopMonitoring (sys sch)\<rparr>)"

fun run ::
  "(string \<Rightarrow> int option) \<Rightarrow> (string \<Rightarrow> error + AnalysisJSON) \<Rightarrow> input list \<Rightarrow> scheduler \<Rightarrow> scheduler" where
  "run newDate JSON_parse [] sch = sch"
| "run newDate JSON_parse (i # is) sch = run newDate JSON_parse is (step newDate JSON_parse i sch)"

text \<open>
  A trace in which the timer never fires while a callback is suspended: every tick
  finds no cycle running.
\<close>

fun spaced ::
  "(string \<Rightarrow> int option) \<Rightarrow> (string \<Rightarrow> error + AnalysisJSON) \<Rightarrow> input list \<Rightarrow> scheduler \<Rightarrow> bool" where
  "spaced newDate JSON_parse [] sch = True"
| "spaced newDate JSON_parse (i # is) sch =
     ((case i of Tick now \<Rightarrow> running sch = [] | _ \<Rightarrow> True) \<and>
      spaced newDate JSON_parse is (step newDate JSON_parse i sch))"

section \<open>Observations on a cycle\<close>

text \<open>The events and alert texts of the \<open>conflict_alert\<close> messages of a list, in order.\<close>

definition alertsOf :: "WebSocketMessage list \<Rightarrow> (ConflictEvent \<times> string) list" where
  "alertsOf published =
     concat (map (\<lambda>m. case m of conflict_alert event alert _ _ _ \<Rightarrow> [(event, alert)] | _ \<Rightarrow> [])
       published)"

text \<open>
  The place of a message type in the order \<open>analysis_update\<close>, \<open>conflict_alert\<close>,
  \<open>heartbeat\<close>.
\<close>

definition deliveryRank :: "WebSocketMessage \<Rightarrow> nat" where
  "deliveryRank m =
     (case m of analysis_update _ _ _ _ \<Rightarrow> 0 | conflict_alert _ _ _ _ _ \<Rightarrow> 1 | heartbeat _ _ _ _ \<Rightarrow> 2)"

text \<open>
  A subscriber is a connected client when it is in the set of clients, its socket is
  open and its transport works. What the rest of the system does while a cycle waits
  keeps a subscriber connected when it leaves a connected client connected and takes
  nothing away from the messages it has received.
\<close>

definition connectedClient :: "ws \<Rightarrow> system \<Rightarrow> bool" where
  "connectedClient client s =
     (client \<in> set (clients s) \<and> readyState (sockets s client) = OPEN \<and>
      writable (sockets s client))"

definition keepsConnected :: "ws \<Rightarrow> (system \<Rightarrow> system) \<Rightarrow> bool" where
  "keepsConnected client others =
     (\<forall>s. connectedClient client s \<longrightarrow>
        connectedClient client (others s) \<and>
        prefix (received (sockets s client)) (received (sockets (others s) client)))"

text \<open>
  The number of settlements a suspended callback still consumes before it returns: one
  for the call it waits for and one for each event left in the alert loop.
\<close>

definition settlementsNeeded :: "continuation option \<Rightarrow> nat" where
  "settlementsNeeded k =
     (case k of
        None \<Rightarrow> 0
      | Some (AwaitAnalysis recentEvents) \<Rightarrow>
          1 + length (slice0 3 (filter (\<lambda>e. severity e = ''critical'') recentEvents))
      | Some (AwaitAlert recentEvents event rest) \<Rightarrow> 1 + length rest)"

section \<open>Concrete inputs\<close>

text \<open>
  An event shaped like the sample data of the store, with the given id, time value,
  fatality count and severity.
\<close>

definition exampleEvent :: "string \<Rightarrow> int \<Rightarrow> int \<Rightarrow> string \<Rightarrow> ConflictEvent" where
  "exampleEvent i t n sev =
     \<lparr> eventDate = t, country = ''Sudan'', region = Some ''Africa'', location = ''Khartoum'',
       latitude = ''15.5007'', longitude = ''32.5599'',
       eventType = ''Violence against civilians'', subEventType = Some ''Attack'',
       actor1 = Some ''Rapid Support Forces'', actor2 = None, fatalities = Some n,
       notes' = None, source = Some ''UN reports'', sourceScale = Some ''International'',
       severity = sev, id' = i, lastUpdated = 0 \<rparr>"

definition exampleACLED :: "string \<Rightarrow> ACLEDEvent" where
  "exampleACLED n =
     \<lparr> data_date = ''2025-08-30'', event_date = ''2025-08-27'', country_acled = ''Sudan'',
       region_acled = ''Africa'', location_acled = ''Khartoum'', latitude_acled = ''15.5007'',
       longitude_acled = ''32.5599'', event_type = ''Violence against civilians'',
       sub_event_type = ''Attack'', actor1_acled = ''Rapid Support Forces'', actor2_acled = '''',
       fatalities_acled = n, notes_acled = '''', source_acled = ''UN reports'',
       source_scale = ''International'' \<rparr>"

text \<open>\<^verbatim>\<open>parseInt\<close> on a string of decimal digits; \<^verbatim>\<open>NaN\<close> on the empty string.\<close>

definition parseDigits :: "string \<Rightarrow> int option" where
  "parseDigits s = (if s = [] then None else map_option int (digitsVal 0 s))"

definition exampleDateOf :: "string \<Rightarrow> int" where
  "exampleDateOf s = (case parseISODate s of None \<Rightarrow> 0 | Some t \<Rightarrow> t)"

definition exampleUuids :: "nat \<Rightarrow> string" where
  "exampleUuids k = ''uuid-'' @ pad 4 k"

definition noFilters :: ConflictFilters where
  "noFilters =
     \<lparr> severity_filter = None, eventTypes = None, countries = None, region_filter = None,
       startDate = None, endDate = None, limit = None \<rparr>"

text \<open>2025-08-30T20:00:00Z, a tick of the monitoring timer.\<close>

definition exampleNow :: int where
  "exampleNow = 1756584000000"

text \<open>
  Two events outside the 24 hours before \<open>exampleNow\<close>: one at 2025-08-29T01:00:00Z, 43
  hours before the tick, and one at 2025-08-31T00:00:00Z, 4 hours after it.
\<close>

definition eventOld :: ConflictEvent where
  "eventOld = exampleEvent ''old'' 1756429200000 12 ''high''"

definition eventFuture :: ConflictEvent where
  "eventFuture = exampleEvent ''future'' 1756598400000 60 ''critical''"

definition storeOldFuture :: store where
  "storeOldFuture = [(''old'', eventOld), (''future'', eventFuture)]"

text \<open>A service that is down, and a parser that accepts the empty object only.\<close>

definition serviceDown :: "request list \<Rightarrow> request \<Rightarrow> completion" where
  "serviceDown calls req = Rejected (Error ''Request timed out.'')"

definition parseEmptyObject :: "string \<Rightarrow> error + AnalysisJSON" where
  "parseEmptyObject s =
     (if s = ''{}'' then
        Inr \<lparr> severity_json = None, confidence_json = None, keyInsights_json = None,
              recommendations_json = None, emergingPatterns_json = None, riskLevel_json = None \<rparr>
      else Inl (Error ''Unexpected token''))"

text \<open>
  Two subscribers: the transport of socket 1 has failed (no close event yet), socket 2
  works.
\<close>

definition exampleSockets :: "ws \<Rightarrow> WebSocket" where
  "exampleSockets client =
     (if client = 1 then \<lparr> readyState = OPEN, writable = False, received = [] \<rparr>
      else if client = 2 then \<lparr> readyState = OPEN, writable = True, received = [] \<rparr>
      else \<lparr> readyState = CLOSED, writable = False, received = [] \<rparr>)"

definition exampleSystem :: system where
  "exampleSystem =
     \<lparr> storage = storeOldFuture, clients = [1, 2], monitoringInterval = True,
       sockets = exampleSockets, requests = [] \<rparr>"

definition exampleScheduler :: scheduler where
  "exampleScheduler = \<lparr> sys = exampleSystem, running = [], ticks = 0 \<rparr>"

text \<open>
  The settlements of a cycle: the batch analysis times out after 9 seconds, while the
  close event of socket 1 arrives; the alert call answers with empty content 3 seconds
  later, after socket 3 has connected. Two more settlements are not consumed.
\<close>

definition connect3 :: "system \<Rightarrow> system" where
  "connect3 s = snd (onConnection 3 (exampleNow + 10000) s)"

definition exampleSettlements :: "settlement list" where
  "exampleSettlements =
     [(Rejected (Error ''Request timed out.''), exampleNow + 9000, onClose 1),
      (Content None, exampleNow + 12000, connect3),
      (Content (Some ''unused''), exampleNow + 15000, onError 1),
      (Content (Some ''unused''), exampleNow + 18000, stopMonitoring)]"

text \<open>
  A trace in which the first cycle has returned before the second tick: its two calls
  settle 9 and 12 seconds after the first tick.
\<close>

definition exampleTrace :: "input list" where
  "exampleTrace =
     [Tick exampleNow,
      Settled 0 (Rejected (Error ''Request timed out.'')) (exampleNow + 9000),
      Connection 3 (exampleNow + 10000),
      Settled 0 (Content (Some ''Mass-casualty attack reported in Khartoum.'')) (exampleNow + 12000),
      Tick (exampleNow + 30000)]"

text \<open>
  Four critical events of 2025-08-30, at 10:00, 11:00, 12:00 and 13:00 UTC, stored from
  the oldest to the latest.
\<close>

definition critical10 :: ConflictEvent where
  "critical10 = exampleEvent ''c10'' 1756548000000 50 ''critical''"

definition critical11 :: ConflictEvent where
  "critical11 = exampleEvent ''c11'' 1756551600000 51 ''critical''"

definition critical12 :: ConflictEvent where
  "critical12 = exampleEvent ''c12'' 1756555200000 52 ''critical''"

definition critical13 :: ConflictEvent where
  "critical13 = exampleEvent ''c13'' 1756558800000 53 ''critical''"

definition storeFourCritical :: store where
  "storeFourCritical =
     [(''c10'', critical10), (''c11'', critical11), (''c12'', critical12), (''c13'', critical13)]"

section \<open>Lemmas about the store and its query\<close>

lemma set_map_set: "set (map_values (map_set k v st)) \<subseteq> insert v (set (map_values st))"
  by (induction st) (force simp: map_values_def split: if_splits)+

lemma bulkCreate_store:
  "event \<in> set (map_values (snd (bulkCreateConflictEvents uuids now ies st))) \<Longrightarrow>
   event \<in> set (map_values st) \<or>
   (\<exists>ie \<in> set ies. fatalities event = fatalities ie \<and> severity event = severity ie)"
proof (induction ies arbitrary: uuids st)
  case Nil
  then show ?case by simp
next
  case (Cons ie ies)
  obtain ev st' where c: "createConflictEvent (uuids 0) now ie st = (ev, st')"
    by (cases "createConflictEvent (uuids 0) now ie st")
  then have ev: "fatalities ev = fatalities ie" "severity ev = severity ie"
    and st': "st' = map_set (uuids 0) ev st"
    by (auto simp: createConflictEvent_def Let_def)
  from Cons.prems c
  have "event \<in> set (map_values (snd (bulkCreateConflictEvents (\<lambda>k. uuids (Suc k)) now ies st')))"
    by (simp add: Let_def split: prod.splits)
  from Cons.IH[OF this] show ?case
  proof
    assume "event \<in> set (map_values st')"
    with st' set_map_set[of "uuids 0" ev st] have "event = ev \<or> event \<in> set (map_values st)"
      by auto
    with ev show ?thesis by auto
  next
    assume "\<exists>ie\<in>set ies. fatalities event = fatalities ie \<and> severity event = severity ie"
    then show ?thesis by auto
  qed
qed

lemma includesFilter_sound:
  "event \<in> set (includesFilter xs field events) \<Longrightarrow>
   event \<in> set events \<and> (\<forall>ys. xs = Some ys \<and> ys \<noteq> [] \<longrightarrow> field event \<in> set ys)"
  by (auto simp: includesFilter_def split: option.splits if_splits)

lemma includesFilter_subseq: "subseq (includesFilter xs field events) events"
  by (simp add: includesFilter_def split: option.splits)

lemma applyFilters_subseq: "subseq (applyFilters newDate f events) events"
proof -
  have a: "subseq (includesFilter (countries f) country
             (includesFilter (eventTypes f) eventType
               (includesFilter (severity_filter f) severity events))) events"
    by (meson includesFilter_subseq subseq_order.order_trans)
  show ?thesis
    unfolding applyFilters_def Let_def
    by (auto split: option.splits intro: subseq_order.order_trans[OF _ a]
          subseq_order.order_trans[OF subseq_filter_left]
          subseq_order.order_trans[OF subseq_filter_left subseq_order.order_trans[OF subseq_filter_left]])
qed

lemma applyFilters_sound:
  assumes "event \<in> set (applyFilters newDate f events)"
  shows "event \<in> set events"
    and "\<forall>ys. severity_filter f = Some ys \<and> ys \<noteq> [] \<longrightarrow> severity event \<in> set ys"
    and "\<forall>ys. eventTypes f = Some ys \<and> ys \<noteq> [] \<longrightarrow> eventType event \<in> set ys"
    and "\<forall>ys. countries f = Some ys \<and> ys \<noteq> [] \<longrightarrow> country event \<in> set ys"
    and "\<forall>r. region_filter f = Some r \<and> r \<noteq> [] \<longrightarrow> region event = Some r"
    and "\<forall>s. startDate f = Some s \<and> s \<noteq> [] \<longrightarrow> (\<exists>t. newDate s = Some t \<and> t \<le> eventDate event)"
    and "\<forall>s. endDate f = Some s \<and> s \<noteq> [] \<longrightarrow> (\<exists>t. newDate s = Some t \<and> eventDate event \<le> t)"
proof -
  let ?e3 = "includesFilter (countries f) country
             (includesFilter (eventTypes f) eventType
               (includesFilter (severity_filter f) severity events))"
  from assms have in3: "event \<in> set ?e3"
    and r: "\<forall>r. region_filter f = Some r \<and> r \<noteq> [] \<longrightarrow> region event = Some r"
    and s: "\<forall>s. startDate f = Some s \<and> s \<noteq> [] \<longrightarrow> dateGe (eventDate event) (newDate s)"
    and e: "\<forall>s. endDate f = Some s \<and> s \<noteq> [] \<longrightarrow> dateLe (eventDate event) (newDate s)"
    unfolding applyFilters_def Let_def
    by (auto split: option.splits if_splits)
  from in3 show "event \<in> set events"
    and "\<forall>ys. severity_filter f = Some ys \<and> ys \<noteq> [] \<longrightarrow> severity event \<in> set ys"
    and "\<forall>ys. eventTypes f = Some ys \<and> ys \<noteq> [] \<longrightarrow> eventType event \<in> set ys"
    and "\<forall>ys. countries f = Some ys \<and> ys \<noteq> [] \<longrightarrow> country event \<in> set ys"
    by (blast dest: includesFilter_sound)+
  from r show "\<forall>r. region_filter f = Some r \<and> r \<noteq> [] \<longrightarrow> region event = Some r" .
  from s show "\<forall>s. startDate f = Some s \<and> s \<noteq> [] \<longrightarrow> (\<exists>t. newDate s = Some t \<and> t \<le> eventDate event)"
    by (auto simp: dateGe_def split: option.splits)
  from e show "\<forall>s. endDate f = Some s \<and> s \<noteq> [] \<longrightarrow> (\<exists>t. newDate s = Some t \<and> eventDate event \<le> t)"
    by (auto simp: dateLe_def split: option.splits)
qed

lemma slice0_prefix: "prefix (slice0 n xs) xs"
  by (simp add: slice0_def take_is_prefix)

lemma slice0_length: "n \<ge> 0 \<Longrightarrow> int (length (slice0 n xs)) \<le> n"
  by (simp add: slice0_def)

lemma sorted_prefix: "prefix xs ys \<Longrightarrow> sorted ys \<Longrightarrow> sorted xs"
  by (auto simp: prefix_def sorted_append)

lemma filter_prefix_subseq: "prefix xs ys \<Longrightarrow> subseq (filter P xs) (filter P ys)"
  by (auto simp: prefix_def)

lemma getConflictEvents_prefix:
  "prefix (getConflictEvents newDate st (Some f))
     (sort_key (\<lambda>event. - eventDate event) (applyFilters newDate f (map_values st)))"
  by (simp add: getConflictEvents_def Let_def slice0_prefix)

lemma ties_in_store_order:
  "subseq (filter (\<lambda>event. eventDate event = d) (getConflictEvents newDate st (Some f))) (map_values st)"
proof -
  let ?key = "\<lambda>event. - eventDate event"
  let ?xs = "applyFilters newDate f (map_values st)"
  have "subseq (filter (\<lambda>event. ?key event = - d) (getConflictEvents newDate st (Some f)))
          (filter (\<lambda>event. ?key event = - d) (sort_key ?key ?xs))"
    by (rule filter_prefix_subseq[OF getConflictEvents_prefix])
  also have "filter (\<lambda>event. ?key event = - d) (sort_key ?key ?xs) = filter (\<lambda>event. ?key event = - d) ?xs"
    by (rule sort_key_stable)
  finally have "subseq (filter (\<lambda>event. ?key event = - d) (getConflictEvents newDate st (Some f))) ?xs"
    by (rule subseq_order.order_trans) simp
  then have "subseq (filter (\<lambda>event. ?key event = - d) (getConflictEvents newDate st (Some f))) (map_values st)"
    by (rule subseq_order.order_trans) (rule applyFilters_subseq)
  then show ?thesis by simp
qed

lemma digitChar_not_T: "d < 10 \<Longrightarrow> digitChar d \<noteq> CHR ''T''"
proof -
  assume "d < 10"
  then have "d \<in> {0, 1, 2, 3, 4, 5, 6, 7, 8, 9}" by auto
  then show ?thesis by (auto simp: digitChar_def)
qed

lemma pad_not_T: "c \<in> set (pad k n) \<Longrightarrow> c \<noteq> CHR ''T''"
proof (induction k arbitrary: n)
  case 0
  then show ?case by simp
next
  case (Suc k)
  have "digitChar (n mod 10) \<noteq> CHR ''T''" by (rule digitChar_not_T) simp
  with Suc show ?case by auto
qed

lemma pad_length: "length (pad k n) = k"
  by (induction k arbitrary: n) auto

lemma isoYear_hd: "isoYear y \<noteq> [] \<and> hd (isoYear y) \<noteq> CHR ''T''"
proof -
  have "pad 4 n \<noteq> [] \<and> hd (pad 4 n) \<noteq> CHR ''T''" for n
  proof -
    have "length (pad 4 n) = 4" by (rule pad_length)
    then have ne: "pad 4 n \<noteq> []" by auto
    then have "hd (pad 4 n) \<in> set (pad 4 n)" by simp
    with ne show ?thesis using pad_not_T by blast
  qed
  then show ?thesis by (auto simp: isoYear_def)
qed

lemma isoDate_nonempty: "splitT0 (toISOString t) \<noteq> []"
proof -
  obtain y m d where c: "civilFromDays (t div msPerDay) = (y, m, d)"
    by (cases "civilFromDays (t div msPerDay)")
  obtain c cs where "isoYear y = c # cs" "c \<noteq> CHR ''T''"
    using isoYear_hd[of y] by (cases "isoYear y") auto
  then show ?thesis
    by (simp add: splitT0_def toISOString_def Let_def c)
qed

section \<open>Lemmas about the hub\<close>

text \<open>
  The guard \<^verbatim>\<open>readyState === OPEN\<close> keeps \<open>sendToClient\<close> from the one state in which
  \<^verbatim>\<open>send\<close> throws, so neither it nor the loop over the clients throws.
\<close>

lemma sendToClient_returns [simp]: "fst (sendToClient c m s) = Inr ()"
  by (simp add: sendToClient_def ws_send_def)

lemma sendToClient_fields [simp]:
  "clients (snd (sendToClient c m s)) = clients s"
  "storage (snd (sendToClient c m s)) = storage s"
  "requests (snd (sendToClient c m s)) = requests s"
  "monitoringInterval (snd (sendToClient c m s)) = monitoringInterval s"
  by (simp_all add: sendToClient_def ws_send_def)

lemma forEachClient_Cons:
  "forEachClient (c # cs) m s = forEachClient cs m (snd (sendToClient c m s))"
proof -
  obtain r s' where p: "sendToClient c m s = (r, s')" by (cases "sendToClient c m s")
  with sendToClient_returns[of c m s] have "r = Inr ()" by simp
  with p show ?thesis by simp
qed

lemma forEachClient_returns [simp]: "fst (forEachClient cs m s) = Inr ()"
  by (induction cs arbitrary: s) (simp_all add: forEachClient_Cons del: forEachClient.simps(2))

lemma forEachClient_fields [simp]:
  "clients (snd (forEachClient cs m s)) = clients s"
  "storage (snd (forEachClient cs m s)) = storage s"
  "requests (snd (forEachClient cs m s)) = requests s"
  "monitoringInterval (snd (forEachClient cs m s)) = monitoringInterval s"
  by (induction cs arbitrary: s) (simp_all add: forEachClient_Cons del: forEachClient.simps(2))

lemma broadcast_returns [simp]: "fst (broadcast m s) = Inr ()"
  by (simp add: broadcast_def)

lemma broadcast_case [simp]:
  "(case broadcast m s of (Inl e, s') \<Rightarrow> f e s' | (Inr u, s') \<Rightarrow> g u s') = g () (snd (broadcast m s))"
proof -
  obtain r s' where p: "broadcast m s = (r, s')" by (cases "broadcast m s")
  with broadcast_returns[of m s] have "r = Inr ()" by simp
  with p show ?thesis by simp
qed

lemma broadcast_fields [simp]:
  "clients (snd (broadcast m s)) = clients s"
  "storage (snd (broadcast m s)) = storage s"
  "requests (snd (broadcast m s)) = requests s"
  "monitoringInterval (snd (broadcast m s)) = monitoringInterval s"
  by (simp_all add: broadcast_def)

lemma onConnection_returns [simp]: "fst (onConnection c now s) = Inr ()"
  by (simp add: onConnection_def Let_def)

lemma forEachClient_other:
  "b \<notin> set cs \<Longrightarrow> sockets (snd (forEachClient cs m s)) b = sockets s b"
proof (induction cs arbitrary: s)
  case Nil
  then show ?case by simp
next
  case (Cons c cs)
  then have "sockets (snd (sendToClient c m s)) b = sockets s b"
    by (auto simp: sendToClient_def ws_send_def)
  with Cons show ?case by (simp add: forEachClient_Cons del: forEachClient.simps(2))
qed

lemma forEachClient_open:
  assumes "readyState (sockets s b) = OPEN" and "writable (sockets s b)"
  shows "sockets (snd (forEachClient cs m s)) b =
           (sockets s b)\<lparr>received := received (sockets s b) @ replicate (count_list cs b) m\<rparr>"
  using assms
proof (induction cs arbitrary: s)
  case Nil
  then show ?case by simp
next
  case (Cons c cs)
  show ?case
  proof (cases "c = b")
    case True
    let ?s' = "snd (sendToClient b m s)"
    have s': "sockets ?s' b = (sockets s b)\<lparr>received := received (sockets s b) @ [m]\<rparr>"
      using Cons.prems by (simp add: sendToClient_def ws_send_def)
    then have "readyState (sockets ?s' b) = OPEN" "writable (sockets ?s' b)"
      using Cons.prems by simp_all
    from Cons.IH[OF this] s' True show ?thesis
      by (simp add: replicate_app_Cons_same forEachClient_Cons del: forEachClient.simps(2))
  next
    case False
    let ?s' = "snd (sendToClient c m s)"
    have s': "sockets ?s' b = sockets s b"
      using False by (auto simp: sendToClient_def ws_send_def)
    then have "readyState (sockets ?s' b) = OPEN" "writable (sockets ?s' b)"
      using Cons.prems by simp_all
    from Cons.IH[OF this] s' False show ?thesis
      by (simp add: forEachClient_Cons del: forEachClient.simps(2))
  qed
qed

lemma forEachClient_broken:
  "\<not> writable (sockets s a) \<or> readyState (sockets s a) \<noteq> OPEN \<Longrightarrow>
   sockets (snd (forEachClient cs m s)) a = sockets s a"
proof (induction cs arbitrary: s)
  case Nil
  then show ?case by simp
next
  case (Cons c cs)
  have "sockets (snd (sendToClient c m s)) a = sockets s a"
    using Cons.prems by (auto simp: sendToClient_def ws_send_def)
  with Cons.IH[of "snd (sendToClient c m s)"] Cons.prems show ?case
    by (simp add: forEachClient_Cons del: forEachClient.simps(2))
qed

lemma broadcast_received:
  assumes "connectedClient b s"
  shows "received (sockets (snd (broadcast m s)) b) =
           received (sockets s b) @ replicate (count_list (clients s) b) m"
    and "connectedClient b (snd (broadcast m s))"
proof -
  from assms have o: "readyState (sockets s b) = OPEN" "writable (sockets s b)"
    and mem: "b \<in> set (clients s)"
    by (simp_all add: connectedClient_def)
  from forEachClient_open[OF o, of "clients s" m]
  show "received (sockets (snd (broadcast m s)) b) =
           received (sockets s b) @ replicate (count_list (clients s) b) m"
    by (simp add: broadcast_def)
  from forEachClient_open[OF o, of "clients s" m] o mem
  show "connectedClient b (snd (broadcast m s))"
    by (simp add: broadcast_def connectedClient_def)
qed

lemma distinct_count_one: "distinct xs \<Longrightarrow> x \<in> set xs \<Longrightarrow> count_list xs x = 1"
  by (induction xs) auto

section \<open>Lemmas about the monitoring cycle\<close>

lemma analyzeConflictEvents_finish_Inr:
  "\<exists>analysis. analyzeConflictEvents_finish JSON_parse response = Inr analysis"
  by (simp add: analyzeConflictEvents_finish_def split: sum.splits)

lemma generateConflictAlert_finish_Inr:
  "\<exists>alert. generateConflictAlert_finish event response = Inr alert"
  by (simp add: generateConflictAlert_finish_def split: sum.splits)

lemma slice0_3 [simp]: "slice0 3 xs = take 3 xs"
  by (simp add: slice0_def)

lemma settle_None [simp]: "settle JSON_parse xs (published, s, None) = (published, s, None)"
  by (cases xs) simp_all

lemma heartbeatMessage_broadcast [simp]:
  "heartbeatMessage t (snd (broadcast m s)) = heartbeatMessage t s"
  by (simp add: heartbeatMessage_def)

text \<open>What a resumed callback does: one message, then the alert loop.\<close>

lemma resume_alertLoop:
  "\<exists>m todo recentEvents.
     resume JSON_parse k response now s = alertLoop recentEvents todo now [m] (snd (broadcast m s)) \<and>
     length todo + 1 = settlementsNeeded (Some k) \<and>
     (case k of
        AwaitAnalysis re \<Rightarrow>
          recentEvents = re \<and>
          (\<exists>analysis. analyzeConflictEvents_finish JSON_parse response = Inr analysis \<and>
             m = analysis_update analysis (length re) (regionsOf re) (toISOString now)) \<and>
          todo = take 3 (filter (\<lambda>e. severity e = ''critical'') re)
      | AwaitAlert re event rest \<Rightarrow>
          recentEvents = re \<and>
          (\<exists>alert. generateConflictAlert_finish event response = Inr alert \<and>
             m = conflict_alert event alert (severity event)
                   (location event @ '', '' @ country event) (toISOString now)) \<and>
          todo = rest)"
proof (cases k)
  case (AwaitAnalysis re)
  obtain analysis where "analyzeConflictEvents_finish JSON_parse response = Inr analysis"
    using analyzeConflictEvents_finish_Inr by blast
  with AwaitAnalysis show ?thesis
    by (simp add: resume_def afterAnalysis_def Let_def settlementsNeeded_def)
next
  case (AwaitAlert re event rest)
  obtain alert where "generateConflictAlert_finish event response = Inr alert"
    using generateConflictAlert_finish_Inr by blast
  with AwaitAlert show ?thesis
    by (simp add: resume_def afterAlert_def Let_def settlementsNeeded_def)
qed

lemma alertLoop_cases:
  "alertLoop recentEvents todo now published s =
     (case todo of
        [] \<Rightarrow> (published @ [heartbeatMessage now s], snd (broadcast (heartbeatMessage now s) s), None)
      | event # rest \<Rightarrow>
          (published, s\<lparr>requests := requests s @ [AlertRequest event]\<rparr>,
           Some (AwaitAlert recentEvents event rest)))"
  by (simp add: alertLoop_def sendHeartbeat_def split: list.splits)

lemma alertLoop_needed:
  "alertLoop recentEvents todo now published s = (published', s', k') \<Longrightarrow>
   settlementsNeeded k' = length todo"
  by (auto simp: alertLoop_cases settlementsNeeded_def split: list.splits)

lemma resume_needed:
  "resume JSON_parse k response now s = (published', s', k') \<Longrightarrow>
   settlementsNeeded k' + 1 = settlementsNeeded (Some k)"
  using resume_alertLoop[of JSON_parse k response now s] alertLoop_needed
  by (metis (no_types, lifting))

lemma settle_completes:
  "settlementsNeeded k \<le> length xs \<Longrightarrow>
   \<exists>published' s'. settle JSON_parse xs (published, s, k) = (published', s', None)"
proof (induction xs arbitrary: published s k)
  case Nil
  then show ?case by (cases k) (simp_all add: settlementsNeeded_def split: continuation.splits)
next
  case (Cons x xs)
  show ?case
  proof (cases k)
    case None
    then show ?thesis by simp
  next
    case (Some c)
    obtain response now others where x: "x = (response, now, others)" by (cases x)
    obtain p' s' k' where r: "resume JSON_parse c response now (others s) = (p', s', k')"
      by (cases "resume JSON_parse c response now (others s)")
    from resume_needed[OF r] Cons.prems Some have "settlementsNeeded k' \<le> length xs" by simp
    from Cons.IH[OF this] r x Some show ?thesis by simp
  qed
qed

lemma callback_needed:
  "monitoringCallback newDate now s = (published, s', k) \<Longrightarrow> settlementsNeeded k \<le> 4"
  by (auto simp: monitoringCallback_def sendHeartbeat_def analyzeConflictEvents_start_def
      settlementsNeeded_def Let_def split: if_splits)

lemma heartbeatMessage_type [simp]: "messageType (heartbeatMessage t s) = ''heartbeat''"
  by (simp add: heartbeatMessage_def messageType_def)

lemma alertLoop_heartbeat:
  assumes "alertLoop recentEvents todo now published s = (published', s', k')"
    and "filter (\<lambda>m. messageType m = ''heartbeat'') published = []"
  shows "if k' = None
         then length (filter (\<lambda>m. messageType m = ''heartbeat'') published') = 1 \<and>
              last published' = heartbeatMessage now s' 
         else filter (\<lambda>m. messageType m = ''heartbeat'') published' = []"
  using assms by (auto simp: alertLoop_cases split: list.splits)

lemma resume_heartbeat:
  assumes "resume JSON_parse k response now s = (published', s', k')"
  shows "if k' = None
         then length (filter (\<lambda>m. messageType m = ''heartbeat'') published') = 1 \<and>
              last published' = heartbeatMessage now s' 
         else filter (\<lambda>m. messageType m = ''heartbeat'') published' = []"
proof -
  obtain m todo recentEvents where r: "resume JSON_parse k response now s = alertLoop recentEvents todo now [m] (snd (broadcast m s))"
    and m: "case k of
        AwaitAnalysis re \<Rightarrow>
          recentEvents = re \<and>
          (\<exists>analysis. analyzeConflictEvents_finish JSON_parse response = Inr analysis \<and>
             m = analysis_update analysis (length re) (regionsOf re) (toISOString now)) \<and>
          todo = take 3 (filter (\<lambda>e. severity e = ''critical'') re)
      | AwaitAlert re event rest \<Rightarrow>
          recentEvents = re \<and>
          (\<exists>alert. generateConflictAlert_finish event response = Inr alert \<and>
             m = conflict_alert event alert (severity event)
                   (location event @ '', '' @ country event) (toISOString now)) \<and>
          todo = rest"
    using resume_alertLoop[of JSON_parse k response now s] by blast
  from m have "messageType m \<noteq> ''heartbeat''"
    by (auto simp: messageType_def split: continuation.splits)
  then have "filter (\<lambda>m. messageType m = ''heartbeat'') [m] = []" by simp
  from alertLoop_heartbeat[OF _ this] assms r show ?thesis by metis
qed

lemma settle_heartbeat:
  assumes "settle JSON_parse xs (published, s, k) = (published', s', k')"
    and "if k = None
         then length (filter (\<lambda>m. messageType m = ''heartbeat'') published) = 1 \<and>
              (\<exists>t. last published = heartbeatMessage t s)
         else filter (\<lambda>m. messageType m = ''heartbeat'') published = []"
  shows "if k' = None
         then length (filter (\<lambda>m. messageType m = ''heartbeat'') published') = 1 \<and>
              (\<exists>t. last published' = heartbeatMessage t s')
         else filter (\<lambda>m. messageType m = ''heartbeat'') published' = []"
  using assms
proof (induction xs arbitrary: published s k)
  case Nil
  then show ?case by (auto split: if_splits)
next
  case (Cons x xs)
  show ?case
  proof (cases k)
    case None
    with Cons.prems show ?thesis by (auto split: if_splits)
  next
    case (Some c)
    obtain response now others where x: "x = (response, now, others)" by (cases x)
    obtain p1 s1 k1 where r: "resume JSON_parse c response now (others s) = (p1, s1, k1)"
      by (cases "resume JSON_parse c response now (others s)")
    from Cons.prems(2) Some have nohb: "filter (\<lambda>m. messageType m = ''heartbeat'') published = []"
      by simp
    have st: "settle JSON_parse xs (published @ p1, s1, k1) = (published', s', k')"
      using Cons.prems(1) Some x r by simp
    have "if k1 = None
         then length (filter (\<lambda>m. messageType m = ''heartbeat'') (published @ p1)) = 1 \<and>
              (\<exists>t. last (published @ p1) = heartbeatMessage t s1)
         else filter (\<lambda>m. messageType m = ''heartbeat'') (published @ p1) = []"
    proof (cases k1)
      case None
      with resume_heartbeat[OF r] have a: "length (filter (\<lambda>m. messageType m = ''heartbeat'') p1) = 1"
        and b: "last p1 = heartbeatMessage now s1" by simp_all
      from a have "p1 \<noteq> []" by auto
      with a b nohb None show ?thesis by auto
    next
      case (Some c1)
      with resume_heartbeat[OF r] nohb show ?thesis by simp
    qed
    from Cons.IH[OF st this] show ?thesis .
  qed
qed

lemma cycle_completes:
  assumes "4 \<le> length settlements"
  shows "snd (snd (monitoringCycle newDate JSON_parse now settlements s)) = None"
proof -
  obtain p0 s0 k0 where cb: "monitoringCallback newDate now s = (p0, s0, k0)"
    by (cases "monitoringCallback newDate now s")
  with callback_needed[OF cb] assms have "settlementsNeeded k0 \<le> length settlements" by simp
  from settle_completes[OF this, of JSON_parse p0 s0] cb show ?thesis
    by (auto simp: monitoringCycle_def)
qed

lemma alertsOf_append [simp]: "alertsOf (xs @ ys) = alertsOf xs @ alertsOf ys"
  by (simp add: alertsOf_def)

lemma alertsOf_simps [simp]:
  "alertsOf [] = []"
  "alertsOf (conflict_alert event alert sev loc t # ms) = (event, alert) # alertsOf ms"
  "alertsOf (analysis_update analysis n rs t # ms) = alertsOf ms"
  "alertsOf (heartbeatMessage now s # ms) = alertsOf ms"
  by (simp_all add: alertsOf_def heartbeatMessage_def)

lemma settle_alerts:
  assumes "settle JSON_parse xs (published, s, Some (AwaitAlert re event rest)) = (published', s', k')"
  shows "\<exists>new. alertsOf published' = alertsOf published @ new \<and>
           list_all2 (\<lambda>(e, alert) (e', response).
                e = e' \<and> generateConflictAlert_finish e response = Inr alert)
             new (zip (event # rest) (map fst xs)) \<and>
           (k' = None \<longrightarrow> map fst new = event # rest)"
  using assms
proof (induction xs arbitrary: published s event rest)
  case Nil
  then show ?case by auto
next
  case (Cons x xs)
  obtain response now others where x: "x = (response, now, others)" by (cases x)
  obtain alert where al: "generateConflictAlert_finish event response = Inr alert"
    using generateConflictAlert_finish_Inr by blast
  let ?m = "conflict_alert event alert (severity event)
                   (location event @ '', '' @ country event) (toISOString now)"
  have r: "resume JSON_parse (AwaitAlert re event rest) response now (others s) =
             alertLoop re rest now [?m] (snd (broadcast ?m (others s)))"
    by (simp add: resume_def afterAlert_def al Let_def)
  show ?case
  proof (cases rest)
    case Nil
    with Cons.prems x r have "published' = published @ [?m, heartbeatMessage now (snd (broadcast ?m (others s)))]"
      and "k' = None"
      by (simp_all add: alertLoop_cases)
    with Nil al x show ?thesis by simp
  next
    case (Cons e2 rest2)
    with Cons.prems x r
    have "settle JSON_parse xs (published @ [?m],
            (snd (broadcast ?m (others s)))\<lparr>requests := requests (snd (broadcast ?m (others s))) @ [AlertRequest e2]\<rparr>,
            Some (AwaitAlert re e2 rest2)) = (published', s', k')"
      by (simp add: alertLoop_cases)
    from Cons.IH[OF this] obtain new where
      n1: "alertsOf published' = alertsOf (published @ [?m]) @ new"
      and n2: "list_all2 (\<lambda>(e, alert) (e', response).
                e = e' \<and> generateConflictAlert_finish e response = Inr alert)
             new (zip (e2 # rest2) (map fst xs))"
      and n3: "k' = None \<longrightarrow> map fst new = e2 # rest2"
      by (elim exE conjE) (rule that)
    from n1 have a1: "alertsOf published' = alertsOf published @ ((event, alert) # new)"
      by simp
    from n2 al have a2: "list_all2 (\<lambda>(e, alert) (e', response).
                e = e' \<and> generateConflictAlert_finish e response = Inr alert)
             ((event, alert) # new) (zip (event # rest) (map fst (x # xs)))"
      unfolding Cons x by simp
    from n3 have a3: "k' = None \<longrightarrow> map fst ((event, alert) # new) = event # rest"
      unfolding Cons by simp
    from a1 a2 a3 show ?thesis by (intro exI[of _ "(event, alert) # new"] conjI)
  qed
qed

lemma subseq_replicate: "0 < n \<Longrightarrow> subseq [m] (replicate n m)"
  by (cases n) simp_all

lemma broadcast_delivery:
  assumes "connectedClient b s"
  shows "connectedClient b (snd (broadcast m s)) \<and>
         (\<exists>d. received (sockets (snd (broadcast m s)) b) = received (sockets s b) @ d \<and> subseq [m] d)"
proof -
  from assms have "b \<in> set (clients s)" by (simp add: connectedClient_def)
  then have "0 < count_list (clients s) b"
    using count_list_0_iff[of "clients s" b] by auto
  then have "subseq [m] (replicate (count_list (clients s) b) m)"
    by (rule subseq_replicate)
  with broadcast_received[OF assms, of m] show ?thesis by blast
qed

lemma connected_requests [simp]: "connectedClient b (s\<lparr>requests := r\<rparr>) = connectedClient b s"
  by (simp add: connectedClient_def)

lemma alertLoop_delivery:
  assumes "connectedClient b s" and "alertLoop re todo now published s = (published', s', k')"
  shows "connectedClient b s' \<and>
         (\<exists>more d. published' = published @ more \<and>
            received (sockets s' b) = received (sockets s b) @ d \<and> subseq more d)"
proof (cases todo)
  case Nil
  with assms(2) have p: "published' = published @ [heartbeatMessage now s]"
    and s': "s' = snd (broadcast (heartbeatMessage now s) s)"
    by (simp_all add: alertLoop_cases)
  from broadcast_delivery[OF assms(1), of "heartbeatMessage now s"] p s' show ?thesis by blast
next
  case (Cons e rest)
  with assms(2) have "published' = published @ []" "s' = s\<lparr>requests := requests s @ [AlertRequest e]\<rparr>"
    by (simp_all add: alertLoop_cases)
  with assms(1) show ?thesis by simp
qed

lemma resume_delivery:
  assumes "connectedClient b s" and "resume JSON_parse k response now s = (published', s', k')"
  shows "connectedClient b s' \<and>
         (\<exists>d. received (sockets s' b) = received (sockets s b) @ d \<and> subseq published' d)"
proof -
  obtain m todo recentEvents where
    r: "resume JSON_parse k response now s = alertLoop recentEvents todo now [m] (snd (broadcast m s))"
    using resume_alertLoop[of JSON_parse k response now s] by blast
  from broadcast_delivery[OF assms(1), of m] obtain d1 where
    c1: "connectedClient b (snd (broadcast m s))"
    and d1: "received (sockets (snd (broadcast m s)) b) = received (sockets s b) @ d1" "subseq [m] d1"
    by blast
  from r assms(2) have "alertLoop recentEvents todo now [m] (snd (broadcast m s)) = (published', s', k')"
    by simp
  from alertLoop_delivery[OF c1 this] obtain more d2 where
    "connectedClient b s'" "published' = [m] @ more"
    "received (sockets s' b) = received (sockets (snd (broadcast m s)) b) @ d2" "subseq more d2"
    by blast
  moreover from d1(2) \<open>subseq more d2\<close> have "subseq ([m] @ more) (d1 @ d2)"
    by (rule list_emb_append_mono)
  ultimately have "received (sockets s' b) = received (sockets s b) @ (d1 @ d2)"
    "subseq published' (d1 @ d2)"
    using d1(1) by simp_all
  with \<open>connectedClient b s'\<close> show ?thesis by blast
qed

lemma settle_delivery:
  assumes "settle JSON_parse xs (published, s, k) = (published', s', k')"
    and "\<forall>(response, t, others) \<in> set xs. keepsConnected b others"
    and "connectedClient b s"
    and "received (sockets s b) = base @ d" and "subseq published d"
  shows "connectedClient b s' \<and> (\<exists>d'. received (sockets s' b) = base @ d' \<and> subseq published' d')"
  using assms
proof (induction xs arbitrary: published s k d)
  case Nil
  then show ?case by auto
next
  case (Cons x xs)
  show ?case
  proof (cases k)
    case None
    with Cons.prems show ?thesis by auto
  next
    case (Some c)
    obtain response now others where x: "x = (response, now, others)" by (cases x)
    obtain p1 s1 k1 where r: "resume JSON_parse c response now (others s) = (p1, s1, k1)"
      by (cases "resume JSON_parse c response now (others s)")
    from Cons.prems(2) x have kc: "keepsConnected b others" by simp
    with Cons.prems(3) have c0: "connectedClient b (others s)"
      and "prefix (received (sockets s b)) (received (sockets (others s) b))"
      by (simp_all add: keepsConnected_def)
    then obtain d0 where d0: "received (sockets (others s) b) = received (sockets s b) @ d0"
      by (auto simp: prefix_def)
    from resume_delivery[OF c0 r] obtain d1 where
      c1: "connectedClient b s1" and d1: "received (sockets s1 b) = received (sockets (others s) b) @ d1"
      "subseq p1 d1"
      by blast
    have rec: "received (sockets s1 b) = base @ (d @ d0 @ d1)"
      using d1(1) d0 Cons.prems(4) by simp
    have "subseq p1 (d0 @ d1)" using d1(2) by (rule list_emb_append2)
    with Cons.prems(5) have sub: "subseq (published @ p1) (d @ d0 @ d1)"
      by (rule list_emb_append_mono)
    have st: "settle JSON_parse xs (published @ p1, s1, k1) = (published', s', k')"
      using Cons.prems(1) Some x r by simp
    from Cons.prems(2) have "\<forall>(response, t, others) \<in> set xs. keepsConnected b others" by simp
    from Cons.IH[OF st this c1 rec sub] show ?thesis .
  qed
qed

lemma deliveryRank_heartbeat [simp]: "deliveryRank (heartbeatMessage t s) = 2"
  by (simp add: deliveryRank_def heartbeatMessage_def)

lemma settle_order:
  assumes "settle JSON_parse xs (published, s, k) = (published', s', k')"
    and "sorted (map deliveryRank published)"
    and "case k of
           None \<Rightarrow> True
         | Some (AwaitAnalysis _) \<Rightarrow> \<forall>m \<in> set published. deliveryRank m = 0
         | Some (AwaitAlert _ _ _) \<Rightarrow> \<forall>m \<in> set published. deliveryRank m \<le> 1"
  shows "sorted (map deliveryRank published')"
  using assms
proof (induction xs arbitrary: published s k)
  case Nil
  then show ?case by simp
next
  case (Cons x xs)
  show ?case
  proof (cases k)
    case None
    with Cons.prems show ?thesis by simp
  next
    case (Some c)
    obtain response now others where x: "x = (response, now, others)" by (cases x)
    obtain m todo recentEvents where
      r: "resume JSON_parse c response now (others s) =
            alertLoop recentEvents todo now [m] (snd (broadcast m (others s)))"
      and m: "case c of
        AwaitAnalysis re \<Rightarrow>
          recentEvents = re \<and>
          (\<exists>analysis. analyzeConflictEvents_finish JSON_parse response = Inr analysis \<and>
             m = analysis_update analysis (length re) (regionsOf re) (toISOString now)) \<and>
          todo = take 3 (filter (\<lambda>e. severity e = ''critical'') re)
      | AwaitAlert re event rest \<Rightarrow>
          recentEvents = re \<and>
          (\<exists>alert. generateConflictAlert_finish event response = Inr alert \<and>
             m = conflict_alert event alert (severity event)
                   (location event @ '', '' @ country event) (toISOString now)) \<and>
          todo = rest"
      using resume_alertLoop[of JSON_parse c response now "others s"] by blast
    from m Cons.prems(3) Some have le: "\<forall>m' \<in> set published. deliveryRank m' \<le> deliveryRank m"
      and m1: "deliveryRank m \<le> 1"
      by (auto simp: deliveryRank_def split: continuation.splits)
    with Cons.prems(2) have so: "sorted (map deliveryRank (published @ [m]))"
      by (simp add: sorted_append)
    show ?thesis
    proof (cases todo)
      case Nil
      with Cons.prems(1) Some x r
      have "published' = published @ [m, heartbeatMessage now (snd (broadcast m (others s)))]"
        by (simp add: alertLoop_cases)
      with so le m1 show ?thesis by (auto simp: sorted_append)
    next
      case (Cons e rest)
      with Cons.prems(1) Some x r
      have st: "settle JSON_parse xs (published @ [m],
                  (snd (broadcast m (others s)))\<lparr>requests := requests (snd (broadcast m (others s))) @ [AlertRequest e]\<rparr>,
                  Some (AwaitAlert recentEvents e rest)) = (published', s', k')"
        by (simp add: alertLoop_cases)
      from le m1 have "\<forall>m' \<in> set (published @ [m]). deliveryRank m' \<le> 1" by auto
      then have "case Some (AwaitAlert recentEvents e rest) of
           None \<Rightarrow> True
         | Some (AwaitAnalysis _) \<Rightarrow> \<forall>m \<in> set (published @ [m]). deliveryRank m = 0
         | Some (AwaitAlert _ _ _) \<Rightarrow> \<forall>m' \<in> set (published @ [m]). deliveryRank m' \<le> 1"
        by simp
      from Cons.IH[OF st so this] show ?thesis .
    qed
  qed
qed

lemma alertLoop_published: "\<exists>more s' k. alertLoop recentEvents todo now published s = (published @ more, s', k)"
  by (cases todo) (simp_all add: alertLoop_def sendHeartbeat_def)

section \<open>Lemmas about the scheduler\<close>

lemma suspend_length_le: "length (suspend c k rs) \<le> length rs + 1"
  by (cases k) (auto simp: suspend_def intro: le_trans[OF length_filter_le])

lemma suspend_present:
  "c \<in> set (map fst rs) \<Longrightarrow> length (suspend c k rs) \<le> length rs"
  by (cases k) (auto simp: suspend_def)

lemma suspend_fresh:
  "c \<notin> set (map fst rs) \<Longrightarrow> length (suspend c (Some k) rs) = length rs + 1"
  by (simp add: suspend_def)

lemma map_of_present: "map_of rs c = Some k \<Longrightarrow> c \<in> set (map fst rs)"
  by (induction rs) (auto split: if_splits)

lemma step_running:
  assumes "case i of Tick now \<Rightarrow> running sch = [] | _ \<Rightarrow> True"
    and "length (running sch) \<le> 1"
  shows "length (running (step newDate JSON_parse i sch)) \<le> 1"
proof (cases i)
  case (Tick now)
  with assms(1) have e: "running sch = []" by simp
  obtain p s' k where "monitoringCallback newDate now (sys sch) = (p, s', k)"
    by (cases "monitoringCallback newDate now (sys sch)")
  with Tick e suspend_length_le[of "ticks sch" k "[]"] show ?thesis
    by (simp add: step_def)
next
  case (Settled c response now)
  show ?thesis
  proof (cases "map_of (running sch) c")
    case None
    with Settled assms(2) show ?thesis by (simp add: step_def)
  next
    case (Some k)
    obtain p s' k' where "resume JSON_parse k response now (sys sch) = (p, s', k')"
      by (cases "resume JSON_parse k response now (sys sch)")
    with Settled Some assms(2) suspend_present[OF map_of_present[OF Some], of k']
    show ?thesis by (simp add: step_def)
  qed
qed (use assms(2) in \<open>simp_all add: step_def\<close>)

lemma spaced_running:
  assumes "spaced newDate JSON_parse tr sch" and "length (running sch) \<le> 1"
  shows "length (running (run newDate JSON_parse (take n tr) sch)) \<le> 1"
  using assms
proof (induction tr arbitrary: sch n)
  case Nil
  then show ?case by simp
next
  case (Cons i tr)
  show ?case
  proof (cases n)
    case 0
    with Cons.prems show ?thesis by simp
  next
    case (Suc m)
    from Cons.prems have t: "case i of Tick now \<Rightarrow> running sch = [] | _ \<Rightarrow> True"
      and sp: "spaced newDate JSON_parse tr (step newDate JSON_parse i sch)"
      by simp_all
    from step_running[OF t Cons.prems(2)]
    have "length (running (step newDate JSON_parse i sch)) \<le> 1" .
    from Cons.IH[OF sp this, of m] Suc show ?thesis by simp
  qed
qed

section \<open>Severity at ingestion\<close>

text \<open>
  C1. Every record that a refresh adds to the store (the provider's records converted by
  \<open>convertACLEDEvent\<close> and inserted by \<open>bulkCreateConflictEvents\<close>) carries the severity
  its fatality count determines: 50 or more is critical, 10 or more is high, 1 or more
  is medium, and otherwise (0) it is low. Fatalities 0, 3, 12, 60, 9 give low, medium,
  high, critical, medium.
\<close>

theorem ingested_severity_thresholds:
  "(\<forall>event \<in> set (map_values (snd (bulkCreateConflictEvents uuids now
        (map (convertACLEDEvent parseInt dateOf) data) st))).
      event \<in> set (map_values st) \<or>
      (\<exists>n. fatalities event = Some n \<and>
         (n \<ge> 50 \<longrightarrow> severity event = ''critical'') \<and>
         (10 \<le> n \<and> n < 50 \<longrightarrow> severity event = ''high'') \<and>
         (1 \<le> n \<and> n < 10 \<longrightarrow> severity event = ''medium'') \<and>
         (n \<le> 0 \<longrightarrow> severity event = ''low''))) \<and>
   map determineSeverity [0, 3, 12, 60, 9] = [''low'', ''medium'', ''high'', ''critical'', ''medium'']"
proof (intro conjI ballI)
  fix event
  assume "event \<in> set (map_values (snd (bulkCreateConflictEvents uuids now
        (map (convertACLEDEvent parseInt dateOf) data) st)))"
  from bulkCreate_store[OF this] show "event \<in> set (map_values st) \<or>
      (\<exists>n. fatalities event = Some n \<and>
         (n \<ge> 50 \<longrightarrow> severity event = ''critical'') \<and>
         (10 \<le> n \<and> n < 50 \<longrightarrow> severity event = ''high'') \<and>
         (1 \<le> n \<and> n < 10 \<longrightarrow> severity event = ''medium'') \<and>
         (n \<le> 0 \<longrightarrow> severity event = ''low''))"
    by (auto simp: convertACLEDEvent_def determineSeverity_def Let_def)
next
  show "map determineSeverity [0, 3, 12, 60, 9] = [''low'', ''medium'', ''high'', ''critical'', ''medium'']"
    by (simp add: determineSeverity_def)
qed

text \<open>A provider record with 60 fatalities, inserted into the empty store.\<close>

theorem ingested_severity_thresholds_witness:
  "map_values (snd (bulkCreateConflictEvents exampleUuids 0
      (map (convertACLEDEvent parseDigits exampleDateOf) [exampleACLED ''60'']) [])) \<noteq> [] \<and>
   map fatalities (map_values (snd (bulkCreateConflictEvents exampleUuids 0
      (map (convertACLEDEvent parseDigits exampleDateOf) [exampleACLED ''60'']) []))) = [Some 60] \<and>
   map severity (map_values (snd (bulkCreateConflictEvents exampleUuids 0
      (map (convertACLEDEvent parseDigits exampleDateOf) [exampleACLED ''60'']) []))) = [''critical'']"
proof -
  let ?st = "snd (bulkCreateConflictEvents exampleUuids 0
      (map (convertACLEDEvent parseDigits exampleDateOf) [exampleACLED ''60'']) [])"
  have p: "parseDigits ''60'' = Some 60"
    by (simp add: parseDigits_def digitVal_def)
  define event where "event = fst (createConflictEvent (exampleUuids 0) 0
      (convertACLEDEvent parseDigits exampleDateOf (exampleACLED ''60'')) [])"
  have st: "map_values ?st = [event]"
    by (simp add: event_def createConflictEvent_def map_values_def Let_def)
  have f: "fatalities event = Some 60"
    by (simp add: event_def createConflictEvent_def convertACLEDEvent_def exampleACLED_def p
        Let_def)
  from st have "event \<in> set (map_values ?st)" by simp
  with ingested_severity_thresholds[of exampleUuids 0 parseDigits exampleDateOf "[exampleACLED ''60'']" "[]"]
  have "event \<in> set (map_values []) \<or>
      (\<exists>n. fatalities event = Some n \<and>
         (n \<ge> 50 \<longrightarrow> severity event = ''critical'') \<and>
         (10 \<le> n \<and> n < 50 \<longrightarrow> severity event = ''high'') \<and>
         (1 \<le> n \<and> n < 10 \<longrightarrow> severity event = ''medium'') \<and>
         (n \<le> 0 \<longrightarrow> severity event = ''low''))"
    by blast
  with f have "severity event = ''critical''" by (auto simp: map_values_def)
  with st f show ?thesis by simp
qed

section \<open>The filtered query\<close>

text \<open>
  C2 does not hold as stated for the limit 0, which the store replaces by 1000: with
  one event in the store and the limit 0, the query returns that event.
\<close>

theorem query_limit_zero_counterexample:
  "limit (noFilters\<lparr>limit := Some 0\<rparr>) = Some 0 \<and>
   length (getConflictEvents parseISODate [(''old'', eventOld)]
      (Some (noFilters\<lparr>limit := Some 0\<rparr>))) = 1"
  by (simp add: getConflictEvents_def noFilters_def applyFilters_def includesFilter_def
      effectiveLimit_def slice0_def map_values_def)

text \<open>
  C2, amended. For every filter and every store, the query returns only events of the
  store that satisfy every predicate the filter supplies, where a list of severities,
  event types or countries is supplied when it is not empty, and a region, start date or
  end date when it is not the empty string. The result is sorted by event date, latest
  first; events of the same date come in the order the store holds them. The result has
  at most N elements when the limit N is at least 1, and at most 1000 when the filter
  has no limit.
\<close>

theorem query_filters_sorted_limited:
  fixes newDate :: "string \<Rightarrow> int option" and st :: store and f :: ConflictFilters
  defines "result \<equiv> getConflictEvents newDate st (Some f)"
  shows "(\<forall>event \<in> set result.
            event \<in> set (map_values st) \<and>
            (\<forall>ys. severity_filter f = Some ys \<and> ys \<noteq> [] \<longrightarrow> severity event \<in> set ys) \<and>
            (\<forall>ys. eventTypes f = Some ys \<and> ys \<noteq> [] \<longrightarrow> eventType event \<in> set ys) \<and>
            (\<forall>ys. countries f = Some ys \<and> ys \<noteq> [] \<longrightarrow> country event \<in> set ys) \<and>
            (\<forall>r. region_filter f = Some r \<and> r \<noteq> [] \<longrightarrow> region event = Some r) \<and>
            (\<forall>s. startDate f = Some s \<and> s \<noteq> [] \<longrightarrow>
                 (\<exists>t. newDate s = Some t \<and> t \<le> eventDate event)) \<and>
            (\<forall>s. endDate f = Some s \<and> s \<noteq> [] \<longrightarrow>
                 (\<exists>t. newDate s = Some t \<and> eventDate event \<le> t))) \<and>
         sorted_wrt (\<lambda>a b. eventDate a \<ge> eventDate b) result \<and>
         (\<forall>d. subseq (filter (\<lambda>event. eventDate event = d) result) (map_values st)) \<and>
         (\<forall>n. limit f = Some n \<and> n \<ge> 1 \<longrightarrow> int (length result) \<le> n) \<and>
         (limit f = None \<longrightarrow> length result \<le> 1000)"
proof (intro conjI ballI allI impI)
  let ?key = "\<lambda>event. - eventDate event"
  let ?sorted = "sort_key ?key (applyFilters newDate f (map_values st))"
  have pre: "prefix result ?sorted"
    unfolding result_def by (rule getConflictEvents_prefix)
  { fix event assume "event \<in> set result"
    with pre have "event \<in> set ?sorted" using set_mono_prefix by blast
    then have in_f: "event \<in> set (applyFilters newDate f (map_values st))" by simp
    note applyFilters_sound[OF in_f] }
  note snd = this
  fix event assume ev: "event \<in> set result"
  show "event \<in> set (map_values st)" by (rule snd(1)[OF ev])
  { fix ys assume "severity_filter f = Some ys \<and> ys \<noteq> []"
    with snd(2)[OF ev] show "severity event \<in> set ys" by blast }
  { fix ys assume "eventTypes f = Some ys \<and> ys \<noteq> []"
    with snd(3)[OF ev] show "eventType event \<in> set ys" by blast }
  { fix ys assume "countries f = Some ys \<and> ys \<noteq> []"
    with snd(4)[OF ev] show "country event \<in> set ys" by blast }
  { fix r assume "region_filter f = Some r \<and> r \<noteq> []"
    with snd(5)[OF ev] show "region event = Some r" by blast }
  { fix s assume "startDate f = Some s \<and> s \<noteq> []"
    with snd(6)[OF ev] show "\<exists>t. newDate s = Some t \<and> t \<le> eventDate event" by blast }
  { fix s assume "endDate f = Some s \<and> s \<noteq> []"
    with snd(7)[OF ev] show "\<exists>t. newDate s = Some t \<and> eventDate event \<le> t" by blast }
next
  let ?key = "\<lambda>event. - eventDate event"
  let ?sorted = "sort_key ?key (applyFilters newDate f (map_values st))"
  have pre: "prefix result ?sorted"
    unfolding result_def by (rule getConflictEvents_prefix)
  have "sorted (map ?key ?sorted)" by (rule sorted_sort_key)
  with pre have "sorted (map ?key result)"
    by (metis map_mono_prefix sorted_prefix)
  then show "sorted_wrt (\<lambda>a b. eventDate a \<ge> eventDate b) result"
    by (simp add: sorted_map)
next
  fix d show "subseq (filter (\<lambda>event. eventDate event = d) result) (map_values st)"
    unfolding result_def by (rule ties_in_store_order)
next
  fix n assume "limit f = Some n \<and> n \<ge> 1"
  then show "int (length result) \<le> n"
    unfolding result_def getConflictEvents_def Let_def
    by (simp add: effectiveLimit_def slice0_length)
next
  assume "limit f = None"
  then show "length result \<le> 1000"
    unfolding result_def getConflictEvents_def Let_def
    by (simp add: effectiveLimit_def slice0_def)
qed

text \<open>
  The store with the events \<open>eventOld\<close> (high) and \<open>eventFuture\<close> (critical), asked for
  the events of severity high from 2025-08-29 on, with the limit 1.
\<close>

theorem query_filters_sorted_limited_witness:
  "getConflictEvents parseISODate storeOldFuture
     (Some (noFilters\<lparr>severity_filter := Some [''high''], startDate := Some ''2025-08-29'',
        limit := Some 1\<rparr>)) = [eventOld] \<and>
   severity eventOld \<in> set [''high''] \<and>
   (\<exists>t. parseISODate ''2025-08-29'' = Some t \<and> t \<le> eventDate eventOld) \<and>
   int (length (getConflictEvents parseISODate storeOldFuture
     (Some (noFilters\<lparr>severity_filter := Some [''high''], startDate := Some ''2025-08-29'',
        limit := Some 1\<rparr>)))) \<le> 1"
proof -
  let ?f = "noFilters\<lparr>severity_filter := Some [''high''], startDate := Some ''2025-08-29'',
        limit := Some 1\<rparr>"
  have r: "getConflictEvents parseISODate storeOldFuture (Some ?f) = [eventOld]"
    by code_simp
  then have mem: "eventOld \<in> set (getConflictEvents parseISODate storeOldFuture (Some ?f))"
    by simp
  have f: "severity_filter ?f = Some [''high''] \<and> [''high''] \<noteq> []"
    "startDate ?f = Some ''2025-08-29'' \<and> ''2025-08-29'' \<noteq> []"
    "limit ?f = Some 1 \<and> (1::int) \<ge> 1"
    by (simp_all add: noFilters_def)
  note t = query_filters_sorted_limited[of parseISODate storeOldFuture ?f]
  from t mem f(1) have "severity eventOld \<in> set [''high'']" by blast
  moreover from t mem f(2) have "\<exists>t. parseISODate ''2025-08-29'' = Some t \<and> t \<le> eventDate eventOld"
    by blast
  moreover from t f(3) have "int (length (getConflictEvents parseISODate storeOldFuture (Some ?f))) \<le> 1"
    by blast
  ultimately show ?thesis using r by blast
qed

section \<open>The scheduler's query\<close>

text \<open>
  C3 does not hold as stated: the query takes every event from midnight UTC of the day
  in which the moment 24 hours before the tick lies, with no upper bound. At the tick
  2025-08-30T20:00:00Z it selects an event 43 hours old and an event 4 hours ahead.
\<close>

theorem monitoring_query_window_counterexample:
  "recentEventsQuery parseISODate exampleNow storeOldFuture = [eventFuture, eventOld] \<and>
   eventDate eventOld < exampleNow - 24 * 60 * 60 * 1000 \<and>
   exampleNow < eventDate eventFuture"
proof -
  have "recentEventsQuery parseISODate exampleNow storeOldFuture = [eventFuture, eventOld]"
    by code_simp
  then show ?thesis
    by (simp add: eventOld_def eventFuture_def exampleEvent_def exampleNow_def)
qed

text \<open>
  C3, amended. Provided the \<^verbatim>\<open>Date\<close> constructor reads the date-only string of a day
  as midnight UTC of that day (as ECMAScript specifies), the scheduler's query at a
  tick selects the events of severity high or critical whose event date is not before
  midnight UTC of the day in which the moment 24 hours before the tick lies, sorted
  latest first (events of the same date in store order), and of these the first 50.
\<close>

theorem monitoring_query_selection:
  assumes "newDate (splitT0 (toISOString (now - 24 * 60 * 60 * 1000))) =
             Some (startOfDay (now - 24 * 60 * 60 * 1000))"
  shows "recentEventsQuery newDate now st =
           take 50 (sort_key (\<lambda>event. - eventDate event)
             (filter (\<lambda>event. (severity event = ''high'' \<or> severity event = ''critical'') \<and>
                        startOfDay (now - 24 * 60 * 60 * 1000) \<le> eventDate event)
                (map_values st)))"
proof -
  have ne: "splitT0 (toISOString (now - 24 * 60 * 60 * 1000)) \<noteq> []"
    by (rule isoDate_nonempty)
  show ?thesis
    using assms ne
    by (simp add: recentEventsQuery_def getConflictEvents_def monitoringFilters_def applyFilters_def
        includesFilter_def effectiveLimit_def slice0_def dateGe_def Let_def conj_commute)
qed

theorem monitoring_query_selection_witness:
  "parseISODate (splitT0 (toISOString (exampleNow - 24 * 60 * 60 * 1000))) =
     Some (startOfDay (exampleNow - 24 * 60 * 60 * 1000)) \<and>
   recentEventsQuery parseISODate exampleNow storeOldFuture =
     take 50 (sort_key (\<lambda>event. - eventDate event)
       (filter (\<lambda>event. (severity event = ''high'' \<or> severity event = ''critical'') \<and>
                  startOfDay (exampleNow - 24 * 60 * 60 * 1000) \<le> eventDate event)
          (map_values storeOldFuture)))"
proof -
  have h: "parseISODate (splitT0 (toISOString (exampleNow - 24 * 60 * 60 * 1000))) =
     Some (startOfDay (exampleNow - 24 * 60 * 60 * 1000))"
    by code_simp
  from monitoring_query_selection[of parseISODate exampleNow storeOldFuture] h show ?thesis
    by blast
qed

section \<open>The heartbeat of a cycle\<close>

text \<open>
  C4. Every monitoring cycle publishes exactly one heartbeat, and publishes it last,
  with the status \<open>monitoring\<close> and the number of clients at that moment. This holds
  whatever the query matched, however the calls of the Analyzer settle (a rejected call
  included) and whatever the rest of the system does while the cycle waits: a cycle has
  returned once at most four calls have settled, a cycle that has returned has
  published one heartbeat, and a cycle that still waits has published none. When the
  query matches nothing, the cycle returns at its tick and the heartbeat is the only
  message.
\<close>

theorem every_cycle_one_heartbeat:
  "\<exists>published s' k.
     monitoringCycle newDate JSON_parse now settlements s = (published, s', k) \<and>
     (4 \<le> length settlements \<longrightarrow> k = None) \<and>
     (k = None \<longrightarrow>
        length (filter (\<lambda>m. messageType m = ''heartbeat'') published) = 1 \<and>
        (\<exists>t. last published =
           heartbeat ''monitoring'' (length (clients s')) (Some (toISOString t)) (toISOString t))) \<and>
     (k \<noteq> None \<longrightarrow> filter (\<lambda>m. messageType m = ''heartbeat'') published = []) \<and>
     (recentEventsQuery newDate now (storage s) = [] \<longrightarrow>
        k = None \<and>
        published =
          [heartbeat ''monitoring'' (length (clients s)) (Some (toISOString now)) (toISOString now)])"
proof -
  obtain p0 s0 k0 where cb: "monitoringCallback newDate now s = (p0, s0, k0)"
    by (cases "monitoringCallback newDate now s")
  obtain published s' k where cy: "monitoringCycle newDate JSON_parse now settlements s = (published, s', k)"
    by (cases "monitoringCycle newDate JSON_parse now settlements s")
  then have st: "settle JSON_parse settlements (p0, s0, k0) = (published, s', k)"
    by (simp add: monitoringCycle_def cb)
  have init: "if k0 = None
         then length (filter (\<lambda>m. messageType m = ''heartbeat'') p0) = 1 \<and>
              (\<exists>t. last p0 = heartbeatMessage t s0)
         else filter (\<lambda>m. messageType m = ''heartbeat'') p0 = []"
    using cb
    by (auto simp: monitoringCallback_def sendHeartbeat_def analyzeConflictEvents_start_def
        Let_def split: if_splits)
  note fin = settle_heartbeat[OF st init]
  have complete: "4 \<le> length settlements \<longrightarrow> k = None"
  proof
    assume "4 \<le> length settlements"
    with callback_needed[OF cb] have "settlementsNeeded k0 \<le> length settlements" by simp
    from settle_completes[OF this, of JSON_parse p0 s0] st show "k = None" by auto
  qed
  have empty: "recentEventsQuery newDate now (storage s) = [] \<longrightarrow>
        k = None \<and>
        published =
          [heartbeat ''monitoring'' (length (clients s)) (Some (toISOString now)) (toISOString now)]"
  proof
    assume "recentEventsQuery newDate now (storage s) = []"
    with cb have "p0 = [heartbeatMessage now s]" "k0 = None"
      by (auto simp: monitoringCallback_def sendHeartbeat_def Let_def)
    with st show "k = None \<and>
        published =
          [heartbeat ''monitoring'' (length (clients s)) (Some (toISOString now)) (toISOString now)]"
      by (simp add: heartbeatMessage_def)
  qed
  from fin have a: "k = None \<longrightarrow>
        length (filter (\<lambda>m. messageType m = ''heartbeat'') published) = 1 \<and>
        (\<exists>t. last published =
           heartbeat ''monitoring'' (length (clients s')) (Some (toISOString t)) (toISOString t))"
    by (auto simp: heartbeatMessage_def)
  from fin have b: "k \<noteq> None \<longrightarrow> filter (\<lambda>m. messageType m = ''heartbeat'') published = []"
    by auto
  from cy complete a b empty show ?thesis by blast
qed

text \<open>
  The example system at the tick \<open>exampleNow\<close>, with a batch analysis that times out;
  and the same system with an empty store.
\<close>

theorem every_cycle_one_heartbeat_witness:
  "4 \<le> length exampleSettlements \<and>
   snd (snd (monitoringCycle parseISODate parseEmptyObject exampleNow exampleSettlements
      exampleSystem)) = None \<and>
   length (filter (\<lambda>m. messageType m = ''heartbeat'')
      (fst (monitoringCycle parseISODate parseEmptyObject exampleNow exampleSettlements
         exampleSystem))) = 1 \<and>
   recentEventsQuery parseISODate exampleNow (storage (exampleSystem\<lparr>storage := []\<rparr>)) = [] \<and>
   fst (monitoringCycle parseISODate parseEmptyObject exampleNow exampleSettlements
      (exampleSystem\<lparr>storage := []\<rparr>)) =
     [heartbeat ''monitoring'' 2 (Some (toISOString exampleNow)) (toISOString exampleNow)]"
proof -
  have l: "4 \<le> length exampleSettlements"
    by (simp add: exampleSettlements_def)
  from every_cycle_one_heartbeat[of parseISODate parseEmptyObject exampleNow
      exampleSettlements exampleSystem]
  obtain published s' k where
    c: "monitoringCycle parseISODate parseEmptyObject exampleNow exampleSettlements
          exampleSystem = (published, s', k)"
    and d: "4 \<le> length exampleSettlements \<longrightarrow> k = None"
    and h: "k = None \<longrightarrow>
        length (filter (\<lambda>m. messageType m = ''heartbeat'') published) = 1 \<and>
        (\<exists>t. last published =
           heartbeat ''monitoring'' (length (clients s')) (Some (toISOString t)) (toISOString t))"
    by blast
  from l d h c have first: "snd (snd (monitoringCycle parseISODate parseEmptyObject exampleNow
      exampleSettlements exampleSystem)) = None \<and>
   length (filter (\<lambda>m. messageType m = ''heartbeat'')
      (fst (monitoringCycle parseISODate parseEmptyObject exampleNow exampleSettlements
         exampleSystem))) = 1"
    by simp
  have e: "recentEventsQuery parseISODate exampleNow (storage (exampleSystem\<lparr>storage := []\<rparr>)) = []"
    by (simp add: recentEventsQuery_def getConflictEvents_def monitoringFilters_def
        applyFilters_def includesFilter_def map_values_def slice0_def Let_def)
  from every_cycle_one_heartbeat[of parseISODate parseEmptyObject exampleNow
      exampleSettlements "exampleSystem\<lparr>storage := []\<rparr>"] e
  have "fst (monitoringCycle parseISODate parseEmptyObject exampleNow exampleSettlements
      (exampleSystem\<lparr>storage := []\<rparr>)) =
     [heartbeat ''monitoring'' (length (clients (exampleSystem\<lparr>storage := []\<rparr>)))
        (Some (toISOString exampleNow)) (toISOString exampleNow)]"
    by auto
  then have second: "fst (monitoringCycle parseISODate parseEmptyObject exampleNow
      exampleSettlements (exampleSystem\<lparr>storage := []\<rparr>)) =
     [heartbeat ''monitoring'' 2 (Some (toISOString exampleNow)) (toISOString exampleNow)]"
    by (simp add: exampleSystem_def)
  from l first e second show ?thesis by simp
qed

section \<open>Overlapping cycles\<close>

text \<open>
  C5 does not hold as stated: the timer starts a cycle at every tick and nothing
  records that a cycle is running. With a matching event in the store, a second tick
  30 seconds after the first, before the first cycle's call has settled, leaves the
  cycles 0 and 1 both running.
\<close>

theorem overlapping_cycles_counterexample:
  "map fst (running (run parseISODate parseEmptyObject
       [Tick exampleNow, Tick (exampleNow + 30000)] exampleScheduler)) = [0, 1]"
  by code_simp

text \<open>
  C5, amended. A tick is never skipped or merged: while the timer is set, a tick whose
  query matches an event adds a running cycle to those already running. Two cycles
  never run at once in the executions in which every cycle has returned before the
  next tick: if every tick of a trace finds no cycle running, then at every point of
  the trace at most one cycle is running.
\<close>

theorem cycles_overlap_unless_spaced:
  "(monitoringInterval (sys sch) \<and>
    recentEventsQuery newDate now (storage (sys sch)) \<noteq> [] \<and>
    (\<forall>c \<in> set (map fst (running sch)). c < ticks sch) \<longrightarrow>
      length (running (step newDate JSON_parse (Tick now) sch)) = length (running sch) + 1) \<and>
   (spaced newDate JSON_parse tr sch \<and> length (running sch) \<le> 1 \<longrightarrow>
      (\<forall>n. length (running (run newDate JSON_parse (take n tr) sch)) \<le> 1))"
proof (intro conjI impI allI)
  assume a: "monitoringInterval (sys sch) \<and>
    recentEventsQuery newDate now (storage (sys sch)) \<noteq> [] \<and>
    (\<forall>c \<in> set (map fst (running sch)). c < ticks sch)"
  then have fresh: "ticks sch \<notin> set (map fst (running sch))" by auto
  from a have "monitoringCallback newDate now (sys sch) =
      ([], (sys sch)\<lparr>requests := requests (sys sch) @
                [AnalysisRequest (recentEventsQuery newDate now (storage (sys sch)))]\<rparr>,
       Some (AwaitAnalysis (recentEventsQuery newDate now (storage (sys sch)))))"
    by (simp add: monitoringCallback_def analyzeConflictEvents_start_def Let_def)
  with a suspend_fresh[OF fresh]
  show "length (running (step newDate JSON_parse (Tick now) sch)) = length (running sch) + 1"
    by (simp add: step_def)
next
  fix n
  assume "spaced newDate JSON_parse tr sch \<and> length (running sch) \<le> 1"
  then show "length (running (run newDate JSON_parse (take n tr) sch)) \<le> 1"
    using spaced_running by blast
qed

theorem cycles_overlap_unless_spaced_witness:
  "monitoringInterval (sys exampleScheduler) \<and>
   recentEventsQuery parseISODate exampleNow (storage (sys exampleScheduler)) \<noteq> [] \<and>
   length (running (step parseISODate parseEmptyObject (Tick exampleNow) exampleScheduler)) =
     length (running exampleScheduler) + 1 \<and>
   spaced parseISODate parseEmptyObject exampleTrace exampleScheduler \<and>
   length (running exampleScheduler) \<le> 1 \<and>
   length (running (run parseISODate parseEmptyObject (take 3 exampleTrace) exampleScheduler)) \<le> 1"
proof -
  have a: "monitoringInterval (sys exampleScheduler)"
    by (simp add: exampleScheduler_def exampleSystem_def)
  have "recentEventsQuery parseISODate exampleNow storeOldFuture = [eventFuture, eventOld]"
    by code_simp
  then have b: "recentEventsQuery parseISODate exampleNow (storage (sys exampleScheduler)) \<noteq> []"
    by (simp add: exampleScheduler_def exampleSystem_def)
  have c: "\<forall>c \<in> set (map fst (running exampleScheduler)). c < ticks exampleScheduler"
    by (simp add: exampleScheduler_def)
  have d: "spaced parseISODate parseEmptyObject exampleTrace exampleScheduler"
    by code_simp
  have e: "length (running exampleScheduler) \<le> 1"
    by (simp add: exampleScheduler_def)
  note t = cycles_overlap_unless_spaced[of exampleScheduler parseISODate exampleNow
      parseEmptyObject exampleTrace]
  from t a b c have "length (running (step parseISODate parseEmptyObject (Tick exampleNow)
      exampleScheduler)) = length (running exampleScheduler) + 1"
    by blast
  moreover from t d e have "length (running (run parseISODate parseEmptyObject
      (take 3 exampleTrace) exampleScheduler)) \<le> 1"
    by blast
  ultimately show ?thesis using a b d e by blast
qed

section \<open>Alerts for critical events\<close>

text \<open>
  C6 does not hold as stated: the alerted events are the first three critical events
  in the order of the query's result, latest first, not in the order of the store. With four critical events stored from the oldest to the latest, the cycle
  alerts the three latest, latest first; the first three in store order are the three
  oldest.
\<close>

theorem alerts_store_order_counterexample:
  "map fst (alertsOf (fst (monitoringCycle parseISODate parseEmptyObject exampleNow
      exampleSettlements (exampleSystem\<lparr>storage := storeFourCritical\<rparr>)))) =
     [critical13, critical12, critical11] \<and>
   take 3 (filter (\<lambda>e. severity e = ''critical'' \<and>
                    e \<in> set (recentEventsQuery parseISODate exampleNow storeFourCritical))
             (map_values storeFourCritical)) =
     [critical10, critical11, critical12]"
  by code_simp

text \<open>
  C6, amended. In every cycle at most 3 \<open>conflict_alert\<close> messages are published. The
  alerted events are the first at most 3 events of severity critical in the cycle's
  matched set, taken in the order the query returned it (event date descending, equal
  dates in store order). One alert is published each time a call of the Analyzer's
  single-event capability settles, for the next of these events, and its text is what
  that call gives for that event; when the cycle has returned, all of them have been
  alerted.
\<close>

theorem alerts_for_first_three_critical:
  "\<exists>published s' k.
     monitoringCycle newDate JSON_parse now settlements s = (published, s', k) \<and>
     length (alertsOf published) \<le> 3 \<and>
     list_all2 (\<lambda>(event, alert) (event', response).
          event = event' \<and> generateConflictAlert_finish event response = Inr alert)
       (alertsOf published)
       (zip (take 3 (filter (\<lambda>e. severity e = ''critical'')
                (recentEventsQuery newDate now (storage s))))
            (map fst (tl settlements))) \<and>
     (k = None \<longrightarrow>
        map fst (alertsOf published) =
          take 3 (filter (\<lambda>e. severity e = ''critical'')
             (recentEventsQuery newDate now (storage s))))"
proof -
  let ?re = "recentEventsQuery newDate now (storage s)"
  let ?crit = "take 3 (filter (\<lambda>e. severity e = ''critical'') ?re)"
  let ?R = "\<lambda>(event, alert) (event', response).
          event = event' \<and> generateConflictAlert_finish event response = Inr alert"
  obtain published s' k where cy: "monitoringCycle newDate JSON_parse now settlements s = (published, s', k)"
    by (cases "monitoringCycle newDate JSON_parse now settlements s")
  have main: "list_all2 ?R (alertsOf published) (zip ?crit (map fst (tl settlements))) \<and>
     (k = None \<longrightarrow> map fst (alertsOf published) = ?crit)"
  proof (cases "?re = []")
    case True
    with cy have "published = [heartbeatMessage now s]"
      by (simp add: monitoringCycle_def monitoringCallback_def sendHeartbeat_def Let_def)
    with True show ?thesis by simp
  next
    case False
    then have cb: "monitoringCallback newDate now s =
        ([], s\<lparr>requests := requests s @ [AnalysisRequest ?re]\<rparr>, Some (AwaitAnalysis ?re))"
      by (simp add: monitoringCallback_def analyzeConflictEvents_start_def Let_def)
    show ?thesis
    proof (cases settlements)
      case Nil
      with cy cb show ?thesis by (auto simp: monitoringCycle_def)
    next
      case (Cons x xs)
      obtain response t others where x: "x = (response, t, others)" by (cases x)
      let ?s1 = "others (s\<lparr>requests := requests s @ [AnalysisRequest ?re]\<rparr>)"
      obtain analysis where an: "analyzeConflictEvents_finish JSON_parse response = Inr analysis"
        using analyzeConflictEvents_finish_Inr by blast
      let ?m = "analysis_update analysis (length ?re) (regionsOf ?re) (toISOString t)"
      have r: "resume JSON_parse (AwaitAnalysis ?re) response t ?s1 =
                 alertLoop ?re ?crit t [?m] (snd (broadcast ?m ?s1))"
        by (simp add: resume_def afterAnalysis_def an Let_def)
      show ?thesis
      proof (cases ?crit)
        case Nil
        with cy cb Cons x r have "published = [?m, heartbeatMessage t (snd (broadcast ?m ?s1))]"
          by (simp add: monitoringCycle_def alertLoop_cases)
        with Nil show ?thesis by simp
      next
        case c: (Cons e rest)
        with cy cb Cons x r
        have "settle JSON_parse xs ([?m],
                (snd (broadcast ?m ?s1))\<lparr>requests := requests (snd (broadcast ?m ?s1)) @ [AlertRequest e]\<rparr>,
                Some (AwaitAlert ?re e rest)) = (published, s', k)"
          by (simp add: monitoringCycle_def alertLoop_cases)
        from settle_alerts[OF this] obtain new where
          n1: "alertsOf published = alertsOf [?m] @ new"
          and n2: "list_all2 ?R new (zip (e # rest) (map fst xs))"
          and n3: "k = None \<longrightarrow> map fst new = e # rest"
          by (elim exE conjE) (rule that)
        from n1 have "alertsOf published = new" by simp
        with n2 n3 show ?thesis unfolding c Cons by simp
      qed
    qed
  qed
  then have "length (alertsOf published) = length (zip ?crit (map fst (tl settlements)))"
    by (auto dest: list_all2_lengthD)
  then have "length (alertsOf published) \<le> 3" by simp
  with cy main show ?thesis by (intro exI[of _ published] exI[of _ s'] exI[of _ k]) simp
qed

theorem alerts_for_first_three_critical_witness:
  "snd (snd (monitoringCycle parseISODate parseEmptyObject exampleNow exampleSettlements
      exampleSystem)) = None \<and>
   map fst (alertsOf (fst (monitoringCycle parseISODate parseEmptyObject exampleNow
      exampleSettlements exampleSystem))) =
     take 3 (filter (\<lambda>e. severity e = ''critical'')
        (recentEventsQuery parseISODate exampleNow (storage exampleSystem)))"
proof -
  have l: "4 \<le> length exampleSettlements"
    by (simp add: exampleSettlements_def)
  from cycle_completes[OF l]
  have n: "snd (snd (monitoringCycle parseISODate parseEmptyObject exampleNow
      exampleSettlements exampleSystem)) = None" .
  from alerts_for_first_three_critical[of parseISODate parseEmptyObject exampleNow
      exampleSettlements exampleSystem]
  obtain published s' k where
    c: "monitoringCycle parseISODate parseEmptyObject exampleNow exampleSettlements
          exampleSystem = (published, s', k)"
    and h: "k = None \<longrightarrow>
        map fst (alertsOf published) =
          take 3 (filter (\<lambda>e. severity e = ''critical'')
             (recentEventsQuery parseISODate exampleNow (storage exampleSystem)))"
    by (elim exE conjE) (rule that)
  from n c h show ?thesis by simp
qed

section \<open>Order of delivery\<close>

text \<open>
  C7. The messages a cycle publishes come in the order \<open>analysis_update\<close>,
  \<open>conflict_alert\<close>, \<open>heartbeat\<close>, and a subscriber that stays connected throughout the
  cycle (it is a connected client at the tick, and what the rest of the system does
  while the cycle waits keeps it connected) receives them in that order: the messages
  it has received after the cycle are those it had before, followed by a sequence that
  contains the cycle's messages in the order of their publication.
\<close>

theorem cycle_messages_in_order:
  assumes "connectedClient b s"
    and "\<forall>(response, t, others) \<in> set settlements. keepsConnected b others"
  shows "\<exists>published s' k.
           monitoringCycle newDate JSON_parse now settlements s = (published, s', k) \<and>
           sorted (map deliveryRank published) \<and>
           connectedClient b s' \<and>
           (\<exists>delivered. received (sockets s' b) = received (sockets s b) @ delivered \<and>
              subseq published delivered)"
proof -
  obtain p0 s0 k0 where cb: "monitoringCallback newDate now s = (p0, s0, k0)"
    by (cases "monitoringCallback newDate now s")
  obtain published s' k where cy: "monitoringCycle newDate JSON_parse now settlements s = (published, s', k)"
    by (cases "monitoringCycle newDate JSON_parse now settlements s")
  then have st: "settle JSON_parse settlements (p0, s0, k0) = (published, s', k)"
    by (simp add: monitoringCycle_def cb)
  have init: "(p0 = [] \<and> (\<exists>re. k0 = Some (AwaitAnalysis re) \<and> s0 = s\<lparr>requests := requests s @ [AnalysisRequest re]\<rparr>)) \<or>
              (p0 = [heartbeatMessage now s] \<and> k0 = None \<and> s0 = snd (broadcast (heartbeatMessage now s) s))"
    using cb
    by (auto simp: monitoringCallback_def sendHeartbeat_def analyzeConflictEvents_start_def
        Let_def split: if_splits)
  then have so0: "sorted (map deliveryRank p0)"
    and b0: "case k0 of
           None \<Rightarrow> True
         | Some (AwaitAnalysis _) \<Rightarrow> \<forall>m \<in> set p0. deliveryRank m = 0
         | Some (AwaitAlert _ _ _) \<Rightarrow> \<forall>m \<in> set p0. deliveryRank m \<le> 1"
    by auto
  from init have "connectedClient b s0 \<and> (\<exists>d. received (sockets s0 b) = received (sockets s b) @ d \<and> subseq p0 d)"
  proof
    assume "p0 = [] \<and> (\<exists>re. k0 = Some (AwaitAnalysis re) \<and> s0 = s\<lparr>requests := requests s @ [AnalysisRequest re]\<rparr>)"
    with assms(1) show ?thesis by auto
  next
    assume "p0 = [heartbeatMessage now s] \<and> k0 = None \<and> s0 = snd (broadcast (heartbeatMessage now s) s)"
    with broadcast_delivery[OF assms(1), of "heartbeatMessage now s"] show ?thesis by auto
  qed
  then obtain d where c0: "connectedClient b s0" and d: "received (sockets s0 b) = received (sockets s b) @ d"
    "subseq p0 d" by blast
  from settle_delivery[OF st assms(2) c0 d] settle_order[OF st so0 b0] cy show ?thesis by blast
qed

text \<open>
  Subscriber 2 of the example system, while socket 1 closes, socket 3 connects, and
  the monitoring is stopped.
\<close>

theorem cycle_messages_in_order_witness:
  "connectedClient 2 exampleSystem \<and>
   keepsConnected 2 (onClose 1) \<and>
   keepsConnected 2 connect3 \<and>
   keepsConnected 2 (onError 1) \<and>
   keepsConnected 2 stopMonitoring \<and>
   sorted (map deliveryRank (fst (monitoringCycle parseISODate parseEmptyObject exampleNow
      exampleSettlements exampleSystem))) \<and>
   subseq (fst (monitoringCycle parseISODate parseEmptyObject exampleNow exampleSettlements
             exampleSystem))
     (received (sockets (fst (snd (monitoringCycle parseISODate parseEmptyObject exampleNow
        exampleSettlements exampleSystem))) 2))"
proof -
  have c: "connectedClient 2 exampleSystem"
    by (simp add: connectedClient_def exampleSystem_def exampleSockets_def)
  have k1: "keepsConnected 2 (onClose 1)"
    by (simp add: keepsConnected_def connectedClient_def onClose_def)
  have k2: "keepsConnected 2 connect3"
    by (simp add: keepsConnected_def connectedClient_def connect3_def onConnection_def
        sendToClient_def ws_send_def set_add_def Let_def)
  have k3: "keepsConnected 2 (onError 1)"
    by (simp add: keepsConnected_def connectedClient_def onError_def)
  have k4: "keepsConnected 2 stopMonitoring"
    by (simp add: keepsConnected_def connectedClient_def stopMonitoring_def)
  from k1 k2 k3 k4
  have all: "\<forall>(response, t, others) \<in> set exampleSettlements. keepsConnected 2 others"
    by (simp add: exampleSettlements_def)
  have r: "received (sockets exampleSystem 2) = []"
    by (simp add: exampleSystem_def exampleSockets_def)
  from cycle_messages_in_order[OF c all, of parseISODate parseEmptyObject exampleNow]
  obtain published s' k delivered where
    "monitoringCycle parseISODate parseEmptyObject exampleNow exampleSettlements exampleSystem =
       (published, s', k)"
    "sorted (map deliveryRank published)"
    "received (sockets s' 2) = received (sockets exampleSystem 2) @ delivered"
    "subseq published delivered"
    by blast
  with r c k1 k2 k3 k4 show ?thesis by simp
qed

section \<open>The default verdict on failure\<close>

text \<open>
  C8. For a batch that is not empty, when the call of the external service fails (it
  rejects, by an error or a timeout), the batch analysis returns, and does not raise,
  the verdict with severity medium, confidence 0.3 and placeholder texts; a cycle
  waiting for that analysis then publishes an \<open>analysis_update\<close> that carries this
  verdict, the number of events and their regions, and goes on.
\<close>

theorem analyzer_failure_default:
  assumes "events \<noteq> []" and "openai calls (AnalysisRequest events) = Rejected e"
  shows "analyzeConflictEvents JSON_parse openai events calls =
           (Inr \<lparr> severity_verdict = ''medium'', confidence = 0.3,
                  keyInsights = [''Analysis temporarily unavailable due to AI service error''],
                  recommendations = [''Continue monitoring manually''],
                  emergingPatterns = [], riskLevel = 5 \<rparr>,
            calls @ [AnalysisRequest events]) \<and>
         (\<exists>more s' k. resume JSON_parse (AwaitAnalysis events) (Rejected e) now s =
            (analysis_update
               \<lparr> severity_verdict = ''medium'', confidence = 0.3,
                 keyInsights = [''Analysis temporarily unavailable due to AI service error''],
                 recommendations = [''Continue monitoring manually''],
                 emergingPatterns = [], riskLevel = 5 \<rparr>
               (length events) (regionsOf events) (toISOString now) # more, s', k))"
proof
  from assms show "analyzeConflictEvents JSON_parse openai events calls =
           (Inr \<lparr> severity_verdict = ''medium'', confidence = 0.3,
                  keyInsights = [''Analysis temporarily unavailable due to AI service error''],
                  recommendations = [''Continue monitoring manually''],
                  emergingPatterns = [], riskLevel = 5 \<rparr>,
            calls @ [AnalysisRequest events])"
    by (simp add: analyzeConflictEvents_def analyzeConflictEvents_start_def
        analyzeConflictEvents_finish_def analyzeConflictEvents_try_def failureVerdict_def)
next
  let ?m = "analysis_update failureVerdict (length events) (regionsOf events) (toISOString now)"
  obtain more s' k where
    "alertLoop events (slice0 3 (filter (\<lambda>e. severity e = ''critical'') events)) now [?m] (snd (broadcast ?m s))
       = ([?m] @ more, s', k)"
    using alertLoop_published by blast
  then have "resume JSON_parse (AwaitAnalysis events) (Rejected e) now s = (?m # more, s', k)"
    by (simp add: resume_def afterAnalysis_def analyzeConflictEvents_finish_def
        analyzeConflictEvents_try_def Let_def)
  then show "\<exists>more s' k. resume JSON_parse (AwaitAnalysis events) (Rejected e) now s =
            (analysis_update
               \<lparr> severity_verdict = ''medium'', confidence = 0.3,
                 keyInsights = [''Analysis temporarily unavailable due to AI service error''],
                 recommendations = [''Continue monitoring manually''],
                 emergingPatterns = [], riskLevel = 5 \<rparr>
               (length events) (regionsOf events) (toISOString now) # more, s', k)"
    by (simp add: failureVerdict_def)
qed

theorem analyzer_failure_default_witness:
  "[eventOld] \<noteq> [] \<and>
   serviceDown [] (AnalysisRequest [eventOld]) = Rejected (Error ''Request timed out.'') \<and>
   analyzeConflictEvents parseEmptyObject serviceDown [eventOld] [] =
     (Inr \<lparr> severity_verdict = ''medium'', confidence = 0.3,
            keyInsights = [''Analysis temporarily unavailable due to AI service error''],
            recommendations = [''Continue monitoring manually''],
            emergingPatterns = [], riskLevel = 5 \<rparr>,
      [AnalysisRequest [eventOld]])"
proof -
  have a: "[eventOld] \<noteq> []" by simp
  have b: "serviceDown [] (AnalysisRequest [eventOld]) = Rejected (Error ''Request timed out.'')"
    by (simp add: serviceDown_def)
  from analyzer_failure_default[where events = "[eventOld]" and openai = serviceDown
      and calls = "[]" and e = "Error ''Request timed out.''" and JSON_parse = parseEmptyObject
      and now = exampleNow and s = exampleSystem] a b
  show ?thesis by simp
qed

section \<open>Isolation of subscribers\<close>

text \<open>
  C9. Let A and B be two registered subscribers, B with an open socket and a working
  transport. A call of \<open>broadcast\<close> returns and does not throw, whatever the condition
  of A's socket, and delivers its message to B, once. When the send to A fails, because
  the transport of A has failed or its socket is no longer open, A receives nothing,
  and the failure does not reach the caller: the set of clients is as it was. The
  failure reaches the hub as the error or close event of A's socket, and the handler of
  either event removes A from the set and leaves B in it.
\<close>

theorem subscriber_isolation:
  assumes "distinct (clients s)" and "a \<in> set (clients s)" and "b \<in> set (clients s)"
    and "a \<noteq> b"
    and "readyState (sockets s b) = OPEN" and "writable (sockets s b)"
  shows "fst (broadcast m s) = Inr () \<and>
         received (sockets (snd (broadcast m s)) b) = received (sockets s b) @ [m] \<and>
         (\<not> writable (sockets s a) \<or> readyState (sockets s a) \<noteq> OPEN \<longrightarrow>
            received (sockets (snd (broadcast m s)) a) = received (sockets s a)) \<and>
         clients (snd (broadcast m s)) = clients s \<and>
         a \<notin> set (clients (onError a (snd (broadcast m s)))) \<and>
         b \<in> set (clients (onError a (snd (broadcast m s)))) \<and>
         a \<notin> set (clients (onClose a (snd (broadcast m s)))) \<and>
         b \<in> set (clients (onClose a (snd (broadcast m s))))"
proof -
  from assms have c: "connectedClient b s" by (simp add: connectedClient_def)
  from assms(1,3) have "count_list (clients s) b = 1"
    by (rule distinct_count_one)
  with broadcast_received(1)[OF c, of m]
  have rb: "received (sockets (snd (broadcast m s)) b) = received (sockets s b) @ [m]" by simp
  have ra: "\<not> writable (sockets s a) \<or> readyState (sockets s a) \<noteq> OPEN \<longrightarrow>
            received (sockets (snd (broadcast m s)) a) = received (sockets s a)"
    using forEachClient_broken[of s a "clients s" m] by (simp add: broadcast_def)
  from assms have "a \<notin> set (clients (onError a (snd (broadcast m s)))) \<and>
         b \<in> set (clients (onError a (snd (broadcast m s)))) \<and>
         a \<notin> set (clients (onClose a (snd (broadcast m s)))) \<and>
         b \<in> set (clients (onClose a (snd (broadcast m s))))"
    by (simp add: onError_def onClose_def)
  with rb ra show ?thesis by simp
qed

text \<open>The example system: socket 1 has failed, socket 2 works.\<close>

theorem subscriber_isolation_witness:
  "distinct (clients exampleSystem) \<and> 1 \<in> set (clients exampleSystem) \<and>
   2 \<in> set (clients exampleSystem) \<and>
   readyState (sockets exampleSystem 1) = OPEN \<and> \<not> writable (sockets exampleSystem 1) \<and>
   readyState (sockets exampleSystem 2) = OPEN \<and> writable (sockets exampleSystem 2) \<and>
   fst (broadcast (heartbeatMessage exampleNow exampleSystem) exampleSystem) = Inr () \<and>
   received (sockets (snd (broadcast (heartbeatMessage exampleNow exampleSystem) exampleSystem)) 2) =
     [heartbeatMessage exampleNow exampleSystem] \<and>
   received (sockets (snd (broadcast (heartbeatMessage exampleNow exampleSystem) exampleSystem)) 1) = [] \<and>
   clients (onError 1 (snd (broadcast (heartbeatMessage exampleNow exampleSystem) exampleSystem))) = [2]"
proof -
  have h: "distinct (clients exampleSystem)" "1 \<in> set (clients exampleSystem)"
    "2 \<in> set (clients exampleSystem)" "(1::nat) \<noteq> 2"
    "readyState (sockets exampleSystem 2) = OPEN" "writable (sockets exampleSystem 2)"
    by (simp_all add: exampleSystem_def exampleSockets_def)
  have a: "readyState (sockets exampleSystem 1) = OPEN" "\<not> writable (sockets exampleSystem 1)"
    by (simp_all add: exampleSystem_def exampleSockets_def)
  have r: "received (sockets exampleSystem 2) = []" "received (sockets exampleSystem 1) = []"
    by (simp_all add: exampleSystem_def exampleSockets_def)
  have cl: "clients (onError 1 (snd (broadcast (heartbeatMessage exampleNow exampleSystem) exampleSystem))) = [2]"
    by (simp add: onError_def exampleSystem_def)
  from subscriber_isolation[OF h, of "heartbeatMessage exampleNow exampleSystem"] r h a cl
  show ?thesis by simp
qed

section \<open>The verdict for an empty batch\<close>

text \<open>
  C10. Applied to the empty list of events, the batch analysis returns the fixed verdict
  with severity low, confidence 1.0, the insight \<open>No conflict events to analyze\<close>, the
  recommendation \<open>Continue monitoring for emerging threats\<close>, no emerging patterns and
  risk level 1, whatever the external service would answer and without a call to it:
  the list of calls made is unchanged. This verdict is not the one returned on failure,
  which has severity medium and confidence 0.3.
\<close>

theorem empty_batch_verdict:
  "analyzeConflictEvents JSON_parse openai [] calls =
     (Inr \<lparr> severity_verdict = ''low'', confidence = 1.0,
            keyInsights = [''No conflict events to analyze''],
            recommendations = [''Continue monitoring for emerging threats''],
            emergingPatterns = [], riskLevel = 1 \<rparr>, calls) \<and>
   severity_verdict failureVerdict = ''medium'' \<and> confidence failureVerdict = 0.3 \<and>
   emptyVerdict \<noteq> failureVerdict"
  by (simp add: analyzeConflictEvents_def analyzeConflictEvents_start_def emptyVerdict_def
      failureVerdict_def)

end
